theory Spec2Isabelle
  imports Complex_Main "HOL-Library.Word"
begin

section \<open>JavaScript values used by the audio pipeline\<close>

text \<open>
  The exceptions the audio utilities and the Web platform calls they make can raise, and
  the two failures of opening a session: the microphone is refused, or the connection to
  the service fails.
\<close>

datatype js_error =
    RangeError | NotSupportedError | InvalidCharacterError | InvalidStateError
  | NotAllowedError | NetworkError

text \<open>
  A JavaScript number as it is stored in a \<^verbatim>\<open>Float32Array\<close> or computed from one: a finite
  value, an infinity or NaN. Finite values are real numbers: rounding to single or double
  precision is not part of the model. Reading a typed array outside its bounds yields
  \<^verbatim>\<open>undefined\<close>, which arithmetic turns into NaN.
\<close>

datatype number = Num real | PosInf | NegInf | NaN

fun Math_min :: "number \<Rightarrow> number \<Rightarrow> number" where
  "Math_min NaN _ = NaN"
| "Math_min _ NaN = NaN"
| "Math_min NegInf _ = NegInf"
| "Math_min _ NegInf = NegInf"
| "Math_min PosInf y = y"
| "Math_min x PosInf = x"
| "Math_min (Num a) (Num b) = Num (min a b)"

fun Math_max :: "number \<Rightarrow> number \<Rightarrow> number" where
  "Math_max NaN _ = NaN"
| "Math_max _ NaN = NaN"
| "Math_max PosInf _ = PosInf"
| "Math_max _ PosInf = PosInf"
| "Math_max NegInf y = y"
| "Math_max x NegInf = x"
| "Math_max (Num a) (Num b) = Num (max a b)"

fun js_less :: "number \<Rightarrow> number \<Rightarrow> bool" where
  "js_less NaN _ = False"
| "js_less _ NaN = False"
| "js_less (Num a) (Num b) = (a < b)"
| "js_less NegInf NegInf = False"
| "js_less NegInf _ = True"
| "js_less _ NegInf = False"
| "js_less PosInf _ = False"
| "js_less _ PosInf = True"

fun js_times :: "number \<Rightarrow> number \<Rightarrow> number" where
  "js_times NaN _ = NaN"
| "js_times _ NaN = NaN"
| "js_times (Num a) (Num b) = Num (a * b)"
| "js_times (Num a) PosInf = (if 0 < a then PosInf else if a < 0 then NegInf else NaN)"
| "js_times (Num a) NegInf = (if 0 < a then NegInf else if a < 0 then PosInf else NaN)"
| "js_times PosInf (Num b) = (if 0 < b then PosInf else if b < 0 then NegInf else NaN)"
| "js_times NegInf (Num b) = (if 0 < b then NegInf else if b < 0 then PosInf else NaN)"
| "js_times PosInf PosInf = PosInf"
| "js_times PosInf NegInf = NegInf"
| "js_times NegInf PosInf = NegInf"
| "js_times NegInf NegInf = PosInf"

fun js_plus :: "number \<Rightarrow> number \<Rightarrow> number" where
  "js_plus NaN _ = NaN"
| "js_plus _ NaN = NaN"
| "js_plus (Num a) (Num b) = Num (a + b)"
| "js_plus PosInf NegInf = NaN"
| "js_plus NegInf PosInf = NaN"
| "js_plus PosInf _ = PosInf"
| "js_plus _ PosInf = PosInf"
| "js_plus NegInf _ = NegInf"
| "js_plus _ NegInf = NegInf"

text \<open>\<^verbatim>\<open>Math.round\<close>: the nearest integer, a tie going towards plus infinity.\<close>

definition Math_round :: "real \<Rightarrow> int" where
  "Math_round x = \<lfloor>x + 1 / 2\<rfloor>"

text \<open>Truncation towards zero, the first step of storing a number in an integer array.\<close>

definition js_trunc :: "real \<Rightarrow> int" where
  "js_trunc r = (if 0 \<le> r then \<lfloor>r\<rfloor> else \<lceil>r\<rceil>)"

text \<open>
  Storing a number in an \<^verbatim>\<open>Int16Array\<close> element: NaN and the infinities become 0, a finite
  value is truncated and then reduced modulo \<open>2 ^ 16\<close> (the wrap-around of the conversion).
\<close>

definition ToInt16 :: "number \<Rightarrow> 16 word" where
  "ToInt16 x = (case x of Num r \<Rightarrow> word_of_int (js_trunc r) | _ \<Rightarrow> 0)"

text \<open>
  Reading element \<open>i\<close> of a \<^verbatim>\<open>Float32Array\<close> inside an arithmetic expression: outside the
  bounds the read is \<^verbatim>\<open>undefined\<close> and the expression NaN.
\<close>

definition read_f32 :: "number list \<Rightarrow> int \<Rightarrow> number" where
  "read_f32 a i = (if 0 \<le> i \<and> i < int (length a) then a ! nat i else NaN)"

text \<open>Storing into a typed array: a store outside the bounds is ignored.\<close>

definition array_store :: "'a list \<Rightarrow> nat \<Rightarrow> 'a \<Rightarrow> 'a list" where
  "array_store a i v = (if i < length a then a[i := v] else a)"

text \<open>
  A JavaScript string is a sequence of UTF-16 code units. \<^verbatim>\<open>String.fromCharCode\<close> reduces
  its argument modulo \<open>2 ^ 16\<close>.
\<close>

type_synonym js_string = "nat list"

definition String_fromCharCode :: "nat \<Rightarrow> nat" where
  "String_fromCharCode n = n mod 65536"

definition js_literal :: "string \<Rightarrow> js_string" where
  "js_literal s = map of_char s"

section \<open>Resampler: \<^verbatim>\<open>resampleTo16k\<close>\<close>

text \<open>The body of the loop of \<^verbatim>\<open>resampleTo16k\<close>: the value stored at output index \<open>i\<close>.\<close>

definition resample_at :: "number list \<Rightarrow> real \<Rightarrow> nat \<Rightarrow> number" where
  "resample_at audioData ratio i =
     (let originalIndex = real i * ratio;
          index1 = \<lfloor>originalIndex\<rfloor>;
          index2 = min (index1 + 1) (int (length audioData) - 1);
          fraction = originalIndex - of_int index1
      in js_plus (js_times (read_f32 audioData index1) (Num (1 - fraction)))
                 (js_times (read_f32 audioData index2) (Num fraction)))"

text \<open>The \<^verbatim>\<open>for\<close> loop of \<^verbatim>\<open>resampleTo16k\<close>, from index \<open>i\<close> on.\<close>

function resample_loop :: "number list \<Rightarrow> real \<Rightarrow> nat \<Rightarrow> nat \<Rightarrow> number list \<Rightarrow> number list" where
  "resample_loop audioData ratio newLength i result =
     (if i < newLength then
        resample_loop audioData ratio newLength (i + 1)
          (array_store result i (resample_at audioData ratio i))
      else result)"
  by pat_completeness auto
termination
  by (relation "measure (\<lambda>(audioData, ratio, newLength, i, result). newLength - i)") auto

declare resample_loop.simps [simp del]

text \<open>
  \<^verbatim>\<open>resampleTo16k(audioData, origSampleRate)\<close>. The sample rate is a finite number, and
  the ratio, the new length and the positions \<open>i * ratio\<close> are computed over the reals.
  \<^verbatim>\<open>new Float32Array(newLength)\<close> raises a RangeError for a negative or infinite length
  (a rate of 0 with a non-empty input divides by zero) and gives the empty array for NaN
  (a rate of 0 with an empty input). The largest length the engine allows for a typed
  array is not part of the model.
\<close>

definition resampleTo16k :: "number list \<Rightarrow> real \<Rightarrow> js_error + number list" where
  "resampleTo16k audioData origSampleRate =
     (if origSampleRate = 16000 then Inr audioData
      else
        let ratio = origSampleRate / 16000 in
        if ratio = 0 then (if audioData = [] then Inr [] else Inl RangeError)
        else
          let newLength = Math_round (real (length audioData) / ratio) in
          if newLength < 0 then Inl RangeError
          else Inr (resample_loop audioData ratio (nat newLength) 0
                      (replicate (nat newLength) (Num 0))))"

section \<open>The platform's base64 functions: \<^verbatim>\<open>btoa\<close> and \<^verbatim>\<open>atob\<close>\<close>

text \<open>
  \<^verbatim>\<open>btoa\<close> and \<^verbatim>\<open>atob\<close> are functions of the browser, specified by the HTML and Infra
  standards (RFC 4648 base64 with the alphabet \<open>A-Z a-z 0-9 + /\<close> and \<open>=\<close> padding).
  \<open>b64_char\<close> is the character of a six-bit value, \<open>sextet_of\<close> its inverse.
\<close>

definition b64_char :: "nat \<Rightarrow> nat" where
  "b64_char v =
     (if v < 26 then 65 + v
      else if v < 52 then 97 + (v - 26)
      else if v < 62 then 48 + (v - 52)
      else if v = 62 then 43
      else 47)"

definition sextet_of :: "nat \<Rightarrow> nat option" where
  "sextet_of c =
     (if 65 \<le> c \<and> c \<le> 90 then Some (c - 65)
      else if 97 \<le> c \<and> c \<le> 122 then Some (c - 97 + 26)
      else if 48 \<le> c \<and> c \<le> 57 then Some (c - 48 + 52)
      else if c = 43 then Some 62
      else if c = 47 then Some 63
      else None)"

text \<open>Base64 encoding of a sequence of bytes, three bytes to four characters.\<close>

fun b64_encode :: "nat list \<Rightarrow> js_string" where
  "b64_encode [] = []"
| "b64_encode [a] =
     [b64_char (a div 4), b64_char ((a mod 4) * 16), 61, 61]"
| "b64_encode [a, b] =
     [b64_char (a div 4), b64_char ((a mod 4) * 16 + b div 16), b64_char ((b mod 16) * 4), 61]"
| "b64_encode (a # b # c # rest) =
     [b64_char (a div 4), b64_char ((a mod 4) * 16 + b div 16),
      b64_char ((b mod 16) * 4 + c div 64), b64_char (c mod 64)] @ b64_encode rest"

text \<open>The six-bit values that \<open>b64_encode\<close> writes, without the padding.\<close>

fun b64_sextets :: "nat list \<Rightarrow> nat list" where
  "b64_sextets [] = []"
| "b64_sextets [a] = [a div 4, (a mod 4) * 16]"
| "b64_sextets [a, b] = [a div 4, (a mod 4) * 16 + b div 16, (b mod 16) * 4]"
| "b64_sextets (a # b # c # rest) =
     [a div 4, (a mod 4) * 16 + b div 16, (b mod 16) * 4 + c div 64, c mod 64] @ b64_sextets rest"

text \<open>
  \<^verbatim>\<open>btoa(s)\<close>: an InvalidCharacterError when a code unit of \<open>s\<close> is above 255, otherwise
  the base64 encoding of the code units read as bytes.
\<close>

definition btoa :: "js_string \<Rightarrow> js_error + js_string" where
  "btoa s = (if list_ex (\<lambda>c. 255 < c) s then Inl InvalidCharacterError else Inr (b64_encode s))"

text \<open>
  \<^verbatim>\<open>atob(s)\<close> is the forgiving base64 decoding of the Infra standard: ASCII whitespace is
  removed; when the length is then a multiple of 4, one or two final \<open>=\<close> are removed;
  a length of 1 modulo 4 or a character outside the alphabet is an
  InvalidCharacterError; the six-bit values are then packed into bytes, the spare bits of
  a final group of two or three characters being dropped.
\<close>

definition is_ascii_whitespace :: "nat \<Rightarrow> bool" where
  "is_ascii_whitespace c = (c = 9 \<or> c = 10 \<or> c = 12 \<or> c = 13 \<or> c = 32)"

definition strip_padding :: "js_string \<Rightarrow> js_string" where
  "strip_padding s =
     (if length s mod 4 = 0 \<and> s \<noteq> [] \<and> last s = 61 then
        (if butlast s \<noteq> [] \<and> last (butlast s) = 61 then butlast (butlast s) else butlast s)
      else s)"

fun sextets_of :: "js_string \<Rightarrow> nat list option" where
  "sextets_of [] = Some []"
| "sextets_of (c # cs) =
     (case sextet_of c of
        None \<Rightarrow> None
      | Some v \<Rightarrow> (case sextets_of cs of None \<Rightarrow> None | Some vs \<Rightarrow> Some (v # vs)))"

fun b64_decode :: "nat list \<Rightarrow> nat list" where
  "b64_decode (a # b # c # d # rest) =
     [a * 4 + b div 16, (b mod 16) * 16 + c div 4, (c mod 4) * 64 + d] @ b64_decode rest"
| "b64_decode [a, b, c] = [a * 4 + b div 16, (b mod 16) * 16 + c div 4]"
| "b64_decode [a, b] = [a * 4 + b div 16]"
| "b64_decode _ = []"

definition atob :: "js_string \<Rightarrow> js_error + js_string" where
  "atob s =
     (let d = strip_padding (filter (\<lambda>c. \<not> is_ascii_whitespace c) s) in
      if length d mod 4 = 1 then Inl InvalidCharacterError
      else (case sextets_of d of
              None \<Rightarrow> Inl InvalidCharacterError
            | Some vs \<Rightarrow> Inr (b64_decode vs)))"


section \<open>Base64 helpers: \<^verbatim>\<open>base64ToBytes\<close> and \<^verbatim>\<open>bytesToBase64\<close>\<close>

text \<open>
  The loop of \<^verbatim>\<open>base64ToBytes\<close>: \<^verbatim>\<open>bytes[i] = binaryString.charCodeAt(i)\<close>. A store into
  a \<^verbatim>\<open>Uint8Array\<close> reduces the value modulo 256.
\<close>

function base64ToBytes_loop :: "js_string \<Rightarrow> nat \<Rightarrow> 8 word list \<Rightarrow> 8 word list" where
  "base64ToBytes_loop binaryString i bytes =
     (if i < length binaryString then
        base64ToBytes_loop binaryString (i + 1)
          (array_store bytes i (word_of_nat (binaryString ! i)))
      else bytes)"
  by pat_completeness auto
termination
  by (relation "measure (\<lambda>(binaryString, i, bytes). length binaryString - i)") auto

declare base64ToBytes_loop.simps [simp del]

definition base64ToBytes :: "js_string \<Rightarrow> js_error + 8 word list" where
  "base64ToBytes base64 =
     (case atob base64 of
        Inl e \<Rightarrow> Inl e
      | Inr binaryString \<Rightarrow>
          Inr (base64ToBytes_loop binaryString 0 (replicate (length binaryString) 0)))"

text \<open>The loop of \<^verbatim>\<open>bytesToBase64\<close>: \<^verbatim>\<open>binary += String.fromCharCode(bytes[i])\<close>.\<close>

function bytesToBase64_loop :: "8 word list \<Rightarrow> nat \<Rightarrow> js_string \<Rightarrow> js_string" where
  "bytesToBase64_loop bytes i binary =
     (if i < length bytes then
        bytesToBase64_loop bytes (i + 1) (binary @ [String_fromCharCode (unat (bytes ! i))])
      else binary)"
  by pat_completeness auto
termination
  by (relation "measure (\<lambda>(bytes, i, binary). length bytes - i)") auto

declare bytesToBase64_loop.simps [simp del]

definition bytesToBase64 :: "8 word list \<Rightarrow> js_error + js_string" where
  "bytesToBase64 bytes = btoa (bytesToBase64_loop bytes 0 [])"

section \<open>PCM codec: \<^verbatim>\<open>createPcmBlob\<close> and \<^verbatim>\<open>decodeAudioData\<close>\<close>

text \<open>
  The body of the loop of \<^verbatim>\<open>createPcmBlob\<close>: the sample is clamped to \<open>[-1, 1]\<close>, a
  negative sample is multiplied by 32768 and any other by 32767. On single-precision
  samples these products are exact in double precision, as is the division of a 16-bit
  integer by 32768 in \<^verbatim>\<open>decodeAudioData\<close>: for the codec the real numbers of the model
  are the numbers the program computes.
\<close>

definition clamp_sample :: "number \<Rightarrow> number" where
  "clamp_sample x = Math_max (Num (- 1)) (Math_min (Num 1) x)"

definition scale_sample :: "number \<Rightarrow> number" where
  "scale_sample sample =
     (if js_less sample (Num 0) then js_times sample (Num 32768) else js_times sample (Num 32767))"

function createPcmBlob_loop :: "number list \<Rightarrow> nat \<Rightarrow> 16 word list \<Rightarrow> 16 word list" where
  "createPcmBlob_loop data i int16 =
     (if i < length data then
        createPcmBlob_loop data (i + 1)
          (array_store int16 i (ToInt16 (scale_sample (clamp_sample (data ! i)))))
      else int16)"
  by pat_completeness auto
termination
  by (relation "measure (\<lambda>(data, i, int16). length data - i)") auto

declare createPcmBlob_loop.simps [simp del]

text \<open>
  \<^verbatim>\<open>new Uint8Array(int16.buffer)\<close>: the bytes of the 16-bit elements, the low byte first
  (typed arrays have the byte order of the machine, little-endian on the platforms that
  run browsers).
\<close>

definition int16_bytes :: "16 word list \<Rightarrow> 8 word list" where
  "int16_bytes int16 =
     concat (map (\<lambda>w. [word_of_nat (unat w mod 256), word_of_nat (unat w div 256)]) int16)"

text \<open>The decimal digits of a number, as the template literal writes the sample rate.\<close>

function decimal :: "nat \<Rightarrow> js_string" where
  "decimal n = (if n < 10 then [48 + n] else decimal (n div 10) @ [48 + n mod 10])"
  by pat_completeness auto
termination
  by (relation "measure (\<lambda>n. n)") auto

declare decimal.simps [simp del]

record Blob =
  blob_data :: js_string
  blob_mimeType :: js_string

definition createPcmBlob :: "number list \<Rightarrow> nat \<Rightarrow> js_error + Blob" where
  "createPcmBlob data sampleRate =
     (let l = length data;
          int16 = createPcmBlob_loop data 0 (replicate l 0)
      in case bytesToBase64 (int16_bytes int16) of
           Inl e \<Rightarrow> Inl e
         | Inr s \<Rightarrow> Inr \<lparr>blob_data = s,
                         blob_mimeType = js_literal ''audio/pcm;rate='' @ decimal sampleRate\<rparr>)"

text \<open>
  \<^verbatim>\<open>new Int16Array(data.buffer)\<close>: a RangeError when the byte length is odd, otherwise
  the little-endian 16-bit elements. The byte array is the whole of its buffer, as the
  array that \<^verbatim>\<open>base64ToBytes\<close> returns is.
\<close>

fun int16_of_bytes :: "8 word list \<Rightarrow> 16 word list" where
  "int16_of_bytes (lo # hi # rest) = word_of_nat (unat lo + 256 * unat hi) # int16_of_bytes rest"
| "int16_of_bytes _ = []"

definition Int16Array_of_buffer :: "8 word list \<Rightarrow> js_error + 16 word list" where
  "Int16Array_of_buffer data =
     (if odd (length data) then Inl RangeError else Inr (int16_of_bytes data))"

text \<open>
  An \<^verbatim>\<open>AudioBuffer\<close>: its sample rate, its length in frames and the samples of each
  channel. Its duration is the length divided by the sample rate.
\<close>

record AudioBuffer =
  buf_sampleRate :: real
  buf_length :: nat
  buf_channels :: "number list list"

definition duration :: "AudioBuffer \<Rightarrow> real" where
  "duration b = real (buf_length b) / buf_sampleRate b"

text \<open>
  \<^verbatim>\<open>ctx.createBuffer(numberOfChannels, length, sampleRate)\<close> of the Web Audio API. The
  length is converted to an unsigned integer, which drops the fraction of a non-negative
  number (lengths stay below \<open>2 ^ 32\<close>). The call raises a NotSupportedError when the
  number of channels or the length is zero or an argument is outside its nominal range;
  the ranges here are those every implementation supports: up to 32 channels and rates
  from 8000 to 96000. The buffer is created silent.
\<close>

definition createBuffer :: "nat \<Rightarrow> real \<Rightarrow> real \<Rightarrow> js_error + AudioBuffer" where
  "createBuffer numberOfChannels len sampleRate =
     (if numberOfChannels = 0 \<or> 32 < numberOfChannels \<or> nat \<lfloor>len\<rfloor> = 0 \<or>
         sampleRate < 8000 \<or> 96000 < sampleRate
      then Inl NotSupportedError
      else Inr \<lparr>buf_sampleRate = sampleRate, buf_length = nat \<lfloor>len\<rfloor>,
                 buf_channels = replicate numberOfChannels (replicate (nat \<lfloor>len\<rfloor>) (Num 0))\<rparr>)"

text \<open>
  \<^verbatim>\<open>dataInt16[k] / 32768.0\<close>: outside the bounds the element is \<^verbatim>\<open>undefined\<close> and the
  quotient NaN.
\<close>

definition int16_sample :: "16 word list \<Rightarrow> nat \<Rightarrow> number" where
  "int16_sample dataInt16 k =
     (if k < length dataInt16 then Num (real_of_int (sint (dataInt16 ! k)) / 32768) else NaN)"

text \<open>The inner loop of \<^verbatim>\<open>decodeAudioData\<close>, over the frames of one channel.\<close>

function decode_frames ::
  "16 word list \<Rightarrow> nat \<Rightarrow> real \<Rightarrow> nat \<Rightarrow> nat \<Rightarrow> number list \<Rightarrow> number list" where
  "decode_frames dataInt16 numChannels frameCount channel i channelData =
     (if real i < frameCount then
        decode_frames dataInt16 numChannels frameCount channel (i + 1)
          (array_store channelData i (int16_sample dataInt16 (i * numChannels + channel)))
      else channelData)"
  by pat_completeness auto
termination
  by (relation "measure (\<lambda>(dataInt16, numChannels, frameCount, channel, i, channelData).
        nat \<lceil>frameCount\<rceil> - i)") (auto, linarith)

declare decode_frames.simps [simp del]

text \<open>The outer loop of \<^verbatim>\<open>decodeAudioData\<close>, over the channels.\<close>

function decode_channels ::
  "16 word list \<Rightarrow> nat \<Rightarrow> real \<Rightarrow> nat \<Rightarrow> AudioBuffer \<Rightarrow> AudioBuffer" where
  "decode_channels dataInt16 numChannels frameCount channel buffer =
     (if channel < numChannels then
        decode_channels dataInt16 numChannels frameCount (channel + 1)
          (buffer\<lparr>buf_channels :=
             array_store (buf_channels buffer) channel
               (decode_frames dataInt16 numChannels frameCount channel 0
                  (buf_channels buffer ! channel))\<rparr>)
      else buffer)"
  by pat_completeness auto
termination
  by (relation "measure (\<lambda>(dataInt16, numChannels, frameCount, channel, buffer).
        numChannels - channel)") auto

declare decode_channels.simps [simp del]

text \<open>
  \<^verbatim>\<open>decodeAudioData(data, ctx, sampleRate, numChannels)\<close>. The audio context is used for
  \<^verbatim>\<open>createBuffer\<close> only. The number of channels is a natural number.
\<close>

definition decodeAudioData :: "8 word list \<Rightarrow> real \<Rightarrow> nat \<Rightarrow> js_error + AudioBuffer" where
  "decodeAudioData data sampleRate numChannels =
     (case Int16Array_of_buffer data of
        Inl e \<Rightarrow> Inl e
      | Inr dataInt16 \<Rightarrow>
          let frameCount = real (length dataInt16) / real numChannels in
          (case createBuffer numChannels frameCount sampleRate of
             Inl e \<Rightarrow> Inl e
           | Inr buffer \<Rightarrow> Inr (decode_channels dataInt16 numChannels frameCount 0 buffer)))"

section \<open>Playback scheduler and volume: the class \<^verbatim>\<open>LiveManager\<close>\<close>

text \<open>
  The output audio context: whether the browser has suspended it, and its clock. A
  context that is closed is dropped by \<^verbatim>\<open>disconnect\<close> in the same step, so a context
  the manager holds is never closed.
\<close>

datatype AudioContextState = Suspended | Running

record AudioContext =
  ctx_state :: AudioContextState
  currentTime :: real

text \<open>
  A buffer source node of the audio graph: its buffer, the time given to \<^verbatim>\<open>start\<close> (none
  before \<^verbatim>\<open>start\<close> is called), whether \<^verbatim>\<open>stop\<close> has taken effect, and whether it has
  finished playing.
\<close>

record AudioBufferSourceNode =
  src_buffer :: AudioBuffer
  src_start :: "real option"
  src_stopped :: bool
  src_ended :: bool

text \<open>
  \<^verbatim>\<open>source.start(when)\<close> raises a RangeError for a negative time; \<^verbatim>\<open>source.stop()\<close> raises
  an InvalidStateError on a node that was never started and does nothing on a node that
  has finished.
\<close>

definition source_start :: "real \<Rightarrow> AudioBufferSourceNode \<Rightarrow> js_error + AudioBufferSourceNode" where
  "source_start when node =
     (if when < 0 then Inl RangeError else Inr (node\<lparr>src_start := Some when\<rparr>))"

definition source_stop :: "AudioBufferSourceNode \<Rightarrow> js_error + AudioBufferSourceNode" where
  "source_stop node =
     (case src_start node of
        None \<Rightarrow> Inl InvalidStateError
      | Some when \<Rightarrow> Inr (if src_ended node then node else node\<lparr>src_stopped := True\<rparr>))"

datatype notification = OnConnect | OnDisconnect | OnError

text \<open>
  The fields of \<^verbatim>\<open>LiveManager\<close> and what its methods act on. A field that holds an
  object the methods only test and release is a flag (\<open>True\<close>: not null);
  \<open>outputNode\<close> is the gain value of the gain node. \<open>activeSources\<close> holds references
  into \<open>sources\<close>, the buffer source nodes started so far, in the order of their
  creation. \<open>console\<close> are the errors written by \<^verbatim>\<open>console.error\<close> and
  \<open>notifications\<close> the calls of the callbacks.
\<close>

record LiveManager =
  sessionPromise :: bool
  inputAudioContext :: bool
  inputSource :: bool
  processor :: bool
  outputAudioContext :: "AudioContext option"
  outputNode :: "real option"
  nextStartTime :: real
  activeSources :: "nat list"
  sources :: "AudioBufferSourceNode list"
  console :: "js_error list"
  notifications :: "notification list"

text \<open>The state after the constructor and the field initialisers.\<close>

definition new_LiveManager :: LiveManager where
  "new_LiveManager =
     \<lparr>sessionPromise = False, inputAudioContext = False, inputSource = False,
      processor = False, outputAudioContext = None, outputNode = None, nextStartTime = 0,
      activeSources = [], sources = [], console = [], notifications = []\<rparr>"

text \<open>
  The part of a server message that \<^verbatim>\<open>handleMessage\<close> reads: the base64 audio of the
  first part of the model turn, when there is one, and the flag \<^verbatim>\<open>interrupted\<close>.
\<close>

record LiveServerMessage =
  msg_audio :: "js_string option"
  msg_interrupted :: bool

text \<open>
  \<^verbatim>\<open>stopAllAudio\<close>. The loop stops every active source inside \<^verbatim>\<open>try\<close>/\<^verbatim>\<open>catch\<close>: an
  error of \<^verbatim>\<open>stop\<close> is dropped and the loop goes on.
\<close>

fun stop_sources :: "nat list \<Rightarrow> AudioBufferSourceNode list \<Rightarrow> AudioBufferSourceNode list" where
  "stop_sources [] nodes = nodes"
| "stop_sources (source # rest) nodes =
     stop_sources rest
       (if source < length nodes then
          (case source_stop (nodes ! source) of
             Inl e \<Rightarrow> nodes
           | Inr node \<Rightarrow> nodes[source := node])
        else nodes)"

definition stopAllAudio :: "LiveManager \<Rightarrow> LiveManager" where
  "stopAllAudio s =
     s\<lparr>sources := stop_sources (activeSources s) (sources s),
       activeSources := [],
       nextStartTime := (case outputAudioContext s of
                           Some ctx \<Rightarrow> currentTime ctx
                         | None \<Rightarrow> 0)\<rparr>"

text \<open>The \<^verbatim>\<open>catch\<close> of \<^verbatim>\<open>handleMessage\<close>: the error is written to the console.\<close>

definition catch_decoding :: "js_error \<Rightarrow> LiveManager \<Rightarrow> LiveManager" where
  "catch_decoding e s = s\<lparr>console := console s @ [e]\<rparr>"

text \<open>
  The body of the \<^verbatim>\<open>try\<close> of \<^verbatim>\<open>handleMessage\<close> with its \<^verbatim>\<open>catch\<close>: the context is
  resumed when suspended, the cursor is raised to the clock, the payload is decoded (24000
  Hz, one channel), a source node is created, started at the cursor and added to the
  active sources, and the cursor advances by the duration of the buffer. An error leaves
  the state as it is at the point where it is raised.
\<close>

definition play_audio :: "AudioContext \<Rightarrow> js_string \<Rightarrow> LiveManager \<Rightarrow> LiveManager" where
  "play_audio ctx base64Audio s =
     (let ctx1 = (if ctx_state ctx = Suspended then ctx\<lparr>ctx_state := Running\<rparr> else ctx);
          s1 = s\<lparr>outputAudioContext := Some ctx1,
                 nextStartTime := max (nextStartTime s) (currentTime ctx1)\<rparr>
      in case base64ToBytes base64Audio of
           Inl e \<Rightarrow> catch_decoding e s1
         | Inr audioBytes \<Rightarrow>
             (case decodeAudioData audioBytes 24000 1 of
                Inl e \<Rightarrow> catch_decoding e s1
              | Inr audioBuffer \<Rightarrow>
                  (case source_start (nextStartTime s1)
                          \<lparr>src_buffer = audioBuffer, src_start = None,
                           src_stopped = False, src_ended = False\<rparr> of
                     Inl e \<Rightarrow> catch_decoding e s1
                   | Inr source \<Rightarrow>
                       s1\<lparr>sources := sources s1 @ [source],
                          nextStartTime := nextStartTime s1 + duration audioBuffer,
                          activeSources := activeSources s1 @ [length (sources s1)]\<rparr>)))"

text \<open>
  \<^verbatim>\<open>handleMessage\<close>. Nothing happens without an output context and an output node. The
  audio is played when the string is present and not empty; then, when the message is
  flagged as interrupted, all audio is stopped. One message is handled at a time: no
  other method runs while the handler waits for \<^verbatim>\<open>resume\<close> or for the decoded buffer.
\<close>

definition handleMessage :: "LiveServerMessage \<Rightarrow> LiveManager \<Rightarrow> LiveManager" where
  "handleMessage message s =
     (case outputAudioContext s of
        None \<Rightarrow> s
      | Some ctx \<Rightarrow>
          (case outputNode s of
             None \<Rightarrow> s
           | Some gain \<Rightarrow>
               (let s1 = (case msg_audio message of
                            None \<Rightarrow> s
                          | Some base64Audio \<Rightarrow>
                              if base64Audio = [] then s else play_audio ctx base64Audio s)
                in if msg_interrupted message then stopAllAudio s1 else s1)))"

text \<open>
  \<^verbatim>\<open>disconnect\<close>: the callback is called, the session, the input nodes and the input
  context are released, all audio is stopped, and the output context is closed and
  dropped. The output node stays.
\<close>

definition disconnect :: "LiveManager \<Rightarrow> LiveManager" where
  "disconnect s =
     (stopAllAudio
        (s\<lparr>notifications := notifications s @ [OnDisconnect],
           sessionPromise := False, inputSource := False, processor := False,
           inputAudioContext := False\<rparr>))
     \<lparr>outputAudioContext := None\<rparr>"

text \<open>\<^verbatim>\<open>setVolume(val)\<close>: with an output node and an output context, the gain is \<open>val / 100\<close>.\<close>

definition setVolume :: "real \<Rightarrow> LiveManager \<Rightarrow> LiveManager" where
  "setVolume val s =
     (case outputNode s of
        None \<Rightarrow> s
      | Some gain \<Rightarrow>
          (case outputAudioContext s of
             None \<Rightarrow> s
           | Some ctx \<Rightarrow> s\<lparr>outputNode := Some (val / 100)\<rparr>))"

text \<open>
  \<^verbatim>\<open>connect\<close>, in the two parts that \<^verbatim>\<open>await getUserMedia\<close> separates. The first part
  creates the input context, a new output context (suspended or running, as the browser
  decides, its clock at 0) and a new gain node at the default gain 1, and stores them in
  the fields; what the fields held before is replaced. The cursor and the active sources
  are not touched. The second part, once the microphone is granted, requests the
  session. The constructors of the first part are taken not to fail.
\<close>

definition connect_graph :: "AudioContextState \<Rightarrow> LiveManager \<Rightarrow> LiveManager" where
  "connect_graph initial s =
     s\<lparr>inputAudioContext := True,
       outputAudioContext := Some \<lparr>ctx_state = initial, currentTime = 0\<rparr>,
       outputNode := Some 1\<rparr>"

definition connect_session :: "LiveManager \<Rightarrow> LiveManager" where
  "connect_session s = s\<lparr>sessionPromise := True\<rparr>"

text \<open>
  The \<^verbatim>\<open>catch\<close> of \<^verbatim>\<open>connect\<close>, the \<^verbatim>\<open>catch\<close> of the session promise and the callback
  \<^verbatim>\<open>onerror\<close> of the session do the same: the error is written to the console,
  \<^verbatim>\<open>onError\<close> is called and the manager disconnects.
\<close>

definition session_error :: "js_error \<Rightarrow> LiveManager \<Rightarrow> LiveManager" where
  "session_error e s =
     disconnect (s\<lparr>console := console s @ [e], notifications := notifications s @ [OnError]\<rparr>)"

text \<open>
  \<^verbatim>\<open>handleOpen\<close>: \<^verbatim>\<open>onConnect\<close> is called and, with an input context, the input source
  and the processor are created.
\<close>

definition handleOpen :: "LiveManager \<Rightarrow> LiveManager" where
  "handleOpen s =
     (let s1 = s\<lparr>notifications := notifications s @ [OnConnect]\<rparr>
      in if inputAudioContext s1 then s1\<lparr>inputSource := True, processor := True\<rparr> else s1)"

text \<open>
  What happens to a manager: the first part of \<^verbatim>\<open>connect\<close> runs, the microphone is
  granted and the second part runs, the session opens, a server message arrives, the
  clock of the output context advances, the browser suspends the context, a source
  finishes playing, the listener of its \<^verbatim>\<open>ended\<close> event removes it from the active
  sources, the volume is set, the session fails (at \<^verbatim>\<open>connect\<close> or later), or the
  manager is disconnected (by the user or when the session closes).
\<close>

datatype event =
    Connect AudioContextState
  | MicrophoneGranted
  | Open
  | Message LiveServerMessage
  | Tick real
  | Suspend
  | Finished nat
  | Ended nat
  | SetVolume real
  | SessionError js_error
  | Disconnect

definition step :: "event \<Rightarrow> LiveManager \<Rightarrow> LiveManager" where
  "step e s =
     (case e of
        Connect initial \<Rightarrow> connect_graph initial s
      | MicrophoneGranted \<Rightarrow> connect_session s
      | Open \<Rightarrow> handleOpen s
      | Message message \<Rightarrow> handleMessage message s
      | Tick dt \<Rightarrow>
          (case outputAudioContext s of
             None \<Rightarrow> s
           | Some ctx \<Rightarrow>
               s\<lparr>outputAudioContext := Some (ctx\<lparr>currentTime := currentTime ctx + max 0 dt\<rparr>)\<rparr>)
      | Suspend \<Rightarrow>
          (case outputAudioContext s of
             None \<Rightarrow> s
           | Some ctx \<Rightarrow> s\<lparr>outputAudioContext := Some (ctx\<lparr>ctx_state := Suspended\<rparr>)\<rparr>)
      | Finished source \<Rightarrow>
          (if source < length (sources s)
           then s\<lparr>sources := (sources s)[source := (sources s ! source)\<lparr>src_ended := True\<rparr>]\<rparr>
           else s)
      | Ended source \<Rightarrow> s\<lparr>activeSources := removeAll source (activeSources s)\<rparr>
      | SetVolume val \<Rightarrow> setVolume val s
      | SessionError err \<Rightarrow> session_error err s
      | Disconnect \<Rightarrow> disconnect s)"

fun run :: "event list \<Rightarrow> LiveManager \<Rightarrow> LiveManager" where
  "run [] s = s"
| "run (e # es) s = run es (step e s)"

text \<open>
  The events that stop all audio: an interrupted message, a disconnect and a failure of
  the session, which disconnects.
\<close>

definition interrupts :: "event \<Rightarrow> bool" where
  "interrupts e =
     (case e of
        Message message \<Rightarrow> msg_interrupted message
      | SessionError err \<Rightarrow> True
      | Disconnect \<Rightarrow> True
      | _ \<Rightarrow> False)"

text \<open>
  Gapless order of the started nodes of a list: each starts no earlier than the cursor
  \<open>c\<close>, which then moves to the end of that node.
\<close>

fun gapless :: "real \<Rightarrow> AudioBufferSourceNode list \<Rightarrow> bool" where
  "gapless c [] = True"
| "gapless c (node # nodes) =
     (case src_start node of
        None \<Rightarrow> gapless c nodes
      | Some t \<Rightarrow> c \<le> t \<and> gapless (t + duration (src_buffer node)) nodes)"

section \<open>Auxiliary definitions of the proofs\<close>

text \<open>
  The cursor after a list of nodes, what the scheduler fixes of a node (its start time and
  its buffer), and a call of \<^verbatim>\<open>stop\<close> inside \<^verbatim>\<open>try\<close>/\<^verbatim>\<open>catch\<close>.
\<close>

fun cursor_after :: "real \<Rightarrow> AudioBufferSourceNode list \<Rightarrow> real" where
  "cursor_after c [] = c"
| "cursor_after c (node # nodes) =
     (case src_start node of
        None \<Rightarrow> cursor_after c nodes
      | Some t \<Rightarrow> cursor_after (t + duration (src_buffer node)) nodes)"

definition sched_key :: "AudioBufferSourceNode \<Rightarrow> real option \<times> AudioBuffer" where
  "sched_key node = (src_start node, src_buffer node)"

definition try_stop :: "AudioBufferSourceNode \<Rightarrow> AudioBufferSourceNode" where
  "try_stop node = (case source_stop node of Inl e \<Rightarrow> node | Inr node' \<Rightarrow> node')"

text \<open>
  Two values for the examples: a manager as \<^verbatim>\<open>connect\<close> leaves it, with a session, a
  suspended output context at time 0 and a gain node at its default gain 1; and a server
  message whose audio is two zero bytes, one silent frame.
\<close>

definition connected_manager :: LiveManager where
  "connected_manager =
     new_LiveManager\<lparr>sessionPromise := True, inputAudioContext := True,
       outputAudioContext := Some \<lparr>ctx_state = Suspended, currentTime = 0\<rparr>,
       outputNode := Some 1\<rparr>"

definition silent_frame :: LiveServerMessage where
  "silent_frame = \<lparr>msg_audio = Some (js_literal ''AAA=''), msg_interrupted = False\<rparr>"

text \<open>
  A manager in the middle of playback at clock time 5: the first source has finished but
  is still among the active sources, the second is playing, the cursor is at 7.
\<close>

definition playing_manager :: LiveManager where
  "playing_manager =
     connected_manager
       \<lparr>outputAudioContext := Some \<lparr>ctx_state = Running, currentTime = 5\<rparr>,
        nextStartTime := 7,
        activeSources := [0, 1],
        sources :=
          [\<lparr>src_buffer = \<lparr>buf_sampleRate = 24000, buf_length = 24000, buf_channels = [[]]\<rparr>,
            src_start = Some 3, src_stopped = False, src_ended = True\<rparr>,
           \<lparr>src_buffer = \<lparr>buf_sampleRate = 24000, buf_length = 72000, buf_channels = [[]]\<rparr>,
            src_start = Some 4, src_stopped = False, src_ended = False\<rparr>]\<rparr>"

section \<open>Properties of the resampler\<close>

lemma length_array_store: "length (array_store a i v) = length a"
  by (simp add: array_store_def)

lemma length_resample_loop: "length (resample_loop a r n i res) = length res"
proof (induction a r n i res rule: resample_loop.induct)
  case (1 a r n i res)
  then show ?case
    by (subst resample_loop.simps) (simp add: length_array_store)
qed

lemma resample_loop_nth:
  "length res = n \<Longrightarrow> k < n \<Longrightarrow>
   resample_loop a r n i res ! k = (if i \<le> k then resample_at a r k else res ! k)"
proof (induction a r n i res rule: resample_loop.induct)
  case (1 a r n i res)
  show ?case
  proof (cases "i < n")
    case True
    have "resample_loop a r n i res ! k = resample_loop a r n (i + 1) (array_store res i (resample_at a r i)) ! k"
      using True by (subst resample_loop.simps) simp
    also have "\<dots> = (if i + 1 \<le> k then resample_at a r k else array_store res i (resample_at a r i) ! k)"
      using "1.IH"[OF True] "1.prems" by (simp add: length_array_store)
    also have "\<dots> = (if i \<le> k then resample_at a r k else res ! k)"
      using "1.prems" True by (cases "k = i") (auto simp: array_store_def)
    finally show ?thesis .
  next
    case False
    then show ?thesis using "1.prems" by (subst resample_loop.simps) simp
  qed
qed

lemma round_len: "0 < rate \<Longrightarrow> Math_round (real n / (rate / 16000)) = round (real n * 16000 / rate)"
  by (simp add: Math_round_def round_def)

lemma Math_round_nonneg: "0 < rate \<Longrightarrow> 0 \<le> Math_round (real n / (rate / 16000))"
  by (simp add: Math_round_def)

lemma idx_bound:
  assumes "0 < ratio" "int i < Math_round (real n / ratio)"
  shows "\<lfloor>real i * ratio\<rfloor> < int n" "0 \<le> \<lfloor>real i * ratio\<rfloor>"
proof -
  have "real i + 1 \<le> real_of_int (Math_round (real n / ratio))"
    using assms(2) by linarith
  also have "\<dots> \<le> real n / ratio + 1/2" unfolding Math_round_def by linarith
  finally have "real i \<le> real n / ratio - 1/2" by simp
  then have "real i * ratio \<le> (real n / ratio - 1/2) * ratio"
    using assms(1) by (simp add: mult_right_mono)
  also have "\<dots> = real n - ratio / 2" using assms(1) by (simp add: field_simps)
  also have "\<dots> < real n" using assms(1) by simp
  finally show "\<lfloor>real i * ratio\<rfloor> < int n" by (simp add: floor_less_iff)
  show "0 \<le> \<lfloor>real i * ratio\<rfloor>" using assms(1) by simp
qed

text \<open>
  Claim C5. When the source sample rate equals the target rate 16000, \<^verbatim>\<open>resampleTo16k\<close>
  returns its input unchanged, for every input buffer.
\<close>

theorem resampleTo16k_identity: "resampleTo16k x 16000 = Inr x"
  by (simp add: resampleTo16k_def)

text \<open>
  Claim C6. For every input buffer and every positive source rate other than 16000,
  \<^verbatim>\<open>resampleTo16k\<close> returns a buffer whose length is within 1 of
  \<open>round (inputLength * 16000 / sourceRate)\<close>; a block of 4096 samples at 48000 Hz gives
  1365 samples.
\<close>

theorem resampleTo16k_length:
  assumes "0 < rate" and "rate \<noteq> 16000"
  shows "\<exists>r. resampleTo16k x rate = Inr r \<and>
             \<bar>int (length r) - round (real (length x) * 16000 / rate)\<bar> \<le> 1 \<and>
             (length x = 4096 \<and> rate = 48000 \<longrightarrow> length r = 1365)"
proof -
  let ?n = "Math_round (real (length x) / (rate / 16000))"
  have nn: "0 \<le> ?n" using assms(1) by (rule Math_round_nonneg)
  have eq: "?n = round (real (length x) * 16000 / rate)" using assms(1) by (rule round_len)
  have r: "resampleTo16k x rate = Inr (resample_loop x (rate / 16000) (nat ?n) 0 (replicate (nat ?n) (Num 0)))"
    using assms nn by (simp add: resampleTo16k_def Let_def)
  have len: "int (length (resample_loop x (rate / 16000) (nat ?n) 0 (replicate (nat ?n) (Num 0)))) = ?n"
    using nn by (simp add: length_resample_loop)
  have sc: "?n = 1365" if "length x = 4096" "rate = 48000"
    unfolding that Math_round_def by simp
  show ?thesis
  proof (intro exI conjI)
    show "resampleTo16k x rate = Inr (resample_loop x (rate / 16000) (nat ?n) 0 (replicate (nat ?n) (Num 0)))"
      by (rule r)
    show "\<bar>int (length (resample_loop x (rate / 16000) (nat ?n) 0 (replicate (nat ?n) (Num 0)))) -
            round (real (length x) * 16000 / rate)\<bar> \<le> 1"
      using len eq by simp
    show "length x = 4096 \<and> rate = 48000 \<longrightarrow>
          length (resample_loop x (rate / 16000) (nat ?n) 0 (replicate (nat ?n) (Num 0))) = 1365"
    proof
      assume h: "length x = 4096 \<and> rate = 48000"
      have "?n = 1365" using h sc by blast
      then show "length (resample_loop x (rate / 16000) (nat ?n) 0 (replicate (nat ?n) (Num 0))) = 1365"
        using len by linarith
    qed
  qed
qed

theorem resampleTo16k_length_witness:
  "(0::real) < 48000 \<and> (48000::real) \<noteq> 16000 \<and>
   (\<exists>r. resampleTo16k (replicate 4096 (Num 0)) 48000 = Inr r \<and> length r = 1365)"
  using resampleTo16k_length[of 48000 "replicate 4096 (Num 0)"] by auto

text \<open>
  Claim C7. For every non-empty input buffer and every positive source rate,
  \<^verbatim>\<open>resampleTo16k\<close> returns a buffer, and for each output index \<open>i\<close> the two input
  indices \<open>floor (i * ratio)\<close> and \<open>min (floor (i * ratio) + 1) (inputLength - 1)\<close> are
  valid indices of the input, so that no read is out of bounds. When the rate is not
  16000 the output sample is the linear interpolation of the two input samples with
  fraction \<open>i * ratio - floor (i * ratio)\<close>; at 16000 it is the input sample itself.
\<close>

theorem resampleTo16k_interpolates_in_bounds:
  assumes "0 < rate" and "audioData \<noteq> []"
  shows "\<exists>result. resampleTo16k audioData rate = Inr result \<and>
           (\<forall>i < length result.
              0 \<le> \<lfloor>real i * (rate / 16000)\<rfloor> \<and>
              \<lfloor>real i * (rate / 16000)\<rfloor> < int (length audioData) \<and>
              0 \<le> min (\<lfloor>real i * (rate / 16000)\<rfloor> + 1) (int (length audioData) - 1) \<and>
              min (\<lfloor>real i * (rate / 16000)\<rfloor> + 1) (int (length audioData) - 1) < int (length audioData) \<and>
              (rate = 16000 \<longrightarrow> result ! i = audioData ! i) \<and>
              (rate \<noteq> 16000 \<longrightarrow> result ! i =
                js_plus
                  (js_times (audioData ! nat \<lfloor>real i * (rate / 16000)\<rfloor>)
                     (Num (1 - (real i * (rate / 16000) - of_int \<lfloor>real i * (rate / 16000)\<rfloor>))))
                  (js_times
                     (audioData ! nat (min (\<lfloor>real i * (rate / 16000)\<rfloor> + 1) (int (length audioData) - 1)))
                     (Num (real i * (rate / 16000) - of_int \<lfloor>real i * (rate / 16000)\<rfloor>)))))"
proof (cases "rate = 16000")
  case True
  have len: "0 < int (length audioData)" using assms(2) by simp
  show ?thesis
  proof (intro exI conjI allI impI)
    show "resampleTo16k audioData rate = Inr audioData"
      using True by (simp add: resampleTo16k_def)
  qed (use True len in auto)
next
  case False
  let ?ratio = "rate / 16000"
  let ?n = "Math_round (real (length audioData) / ?ratio)"
  let ?res = "resample_loop audioData ?ratio (nat ?n) 0 (replicate (nat ?n) (Num 0))"
  have pos: "0 < ?ratio" using assms(1) by simp
  have nn: "0 \<le> ?n" using assms(1) by (rule Math_round_nonneg)
  have len: "0 < int (length audioData)" using assms(2) by simp
  have r: "resampleTo16k audioData rate = Inr ?res"
    using assms False nn by (simp add: resampleTo16k_def Let_def)
  have lres: "length ?res = nat ?n" by (simp add: length_resample_loop)
  have main: "0 \<le> \<lfloor>real i * ?ratio\<rfloor> \<and>
              \<lfloor>real i * ?ratio\<rfloor> < int (length audioData) \<and>
              0 \<le> min (\<lfloor>real i * ?ratio\<rfloor> + 1) (int (length audioData) - 1) \<and>
              min (\<lfloor>real i * ?ratio\<rfloor> + 1) (int (length audioData) - 1) < int (length audioData) \<and>
              ?res ! i =
                js_plus
                  (js_times (audioData ! nat \<lfloor>real i * ?ratio\<rfloor>)
                     (Num (1 - (real i * ?ratio - of_int \<lfloor>real i * ?ratio\<rfloor>))))
                  (js_times
                     (audioData ! nat (min (\<lfloor>real i * ?ratio\<rfloor> + 1) (int (length audioData) - 1)))
                     (Num (real i * ?ratio - of_int \<lfloor>real i * ?ratio\<rfloor>)))"
    if "i < length ?res" for i
  proof -
    have i: "i < nat ?n" using that lres by simp
    then have "int i < ?n" by linarith
    from idx_bound[OF pos this]
    have b1: "\<lfloor>real i * ?ratio\<rfloor> < int (length audioData)" and b0: "0 \<le> \<lfloor>real i * ?ratio\<rfloor>"
      by simp_all
    have b2: "0 \<le> min (\<lfloor>real i * ?ratio\<rfloor> + 1) (int (length audioData) - 1)"
      using b0 len by simp
    have b3: "min (\<lfloor>real i * ?ratio\<rfloor> + 1) (int (length audioData) - 1) < int (length audioData)"
      by simp
    have "?res ! i = resample_at audioData ?ratio i"
      using resample_loop_nth[of "replicate (nat ?n) (Num 0)" "nat ?n" i audioData ?ratio 0] i
      by simp
    also have "\<dots> = js_plus
                  (js_times (audioData ! nat \<lfloor>real i * ?ratio\<rfloor>)
                     (Num (1 - (real i * ?ratio - of_int \<lfloor>real i * ?ratio\<rfloor>))))
                  (js_times
                     (audioData ! nat (min (\<lfloor>real i * ?ratio\<rfloor> + 1) (int (length audioData) - 1)))
                     (Num (real i * ?ratio - of_int \<lfloor>real i * ?ratio\<rfloor>)))"
      unfolding resample_at_def Let_def read_f32_def using b0 b1 b2 b3 by simp
    finally show ?thesis using b0 b1 b2 b3 by blast
  qed
  show ?thesis
  proof (intro exI conjI)
    show "resampleTo16k audioData rate = Inr ?res" by (rule r)
    show "\<forall>i<length ?res. 0 \<le> \<lfloor>real i * ?ratio\<rfloor> \<and>
              \<lfloor>real i * ?ratio\<rfloor> < int (length audioData) \<and>
              0 \<le> min (\<lfloor>real i * ?ratio\<rfloor> + 1) (int (length audioData) - 1) \<and>
              min (\<lfloor>real i * ?ratio\<rfloor> + 1) (int (length audioData) - 1) < int (length audioData) \<and>
              (rate = 16000 \<longrightarrow> ?res ! i = audioData ! i) \<and>
              (rate \<noteq> 16000 \<longrightarrow> ?res ! i =
                js_plus
                  (js_times (audioData ! nat \<lfloor>real i * ?ratio\<rfloor>)
                     (Num (1 - (real i * ?ratio - of_int \<lfloor>real i * ?ratio\<rfloor>))))
                  (js_times
                     (audioData ! nat (min (\<lfloor>real i * ?ratio\<rfloor> + 1) (int (length audioData) - 1)))
                     (Num (real i * ?ratio - of_int \<lfloor>real i * ?ratio\<rfloor>))))"
      using main False by blast
  qed
qed

theorem resampleTo16k_interpolates_in_bounds_witness:
  "(0::real) < 24000 \<and> [Num 1, Num 2, Num 3, Num 4] \<noteq> [] \<and>
   resampleTo16k [Num 1, Num 2, Num 3, Num 4] 24000 = Inr [Num 1, Num (5/2), Num 4] \<and>
   (2::nat) < length [Num 1, Num (5/2), Num 4] \<and>
   \<lfloor>real 2 * (24000 / 16000 :: real)\<rfloor> = 3 \<and>
   min (\<lfloor>real 2 * (24000 / 16000 :: real)\<rfloor> + 1) (int (length [Num 1, Num 2, Num 3, Num 4]) - 1) = 3 \<and>
   [Num 1, Num (5/2), Num 4] ! 2 = js_plus (js_times (Num 4) (Num 1)) (js_times (Num 4) (Num 0))"
proof -
  have e: "resampleTo16k [Num 1, Num 2, Num 3, Num 4] 24000 = Inr [Num 1, Num (5/2), Num 4]"
    by (simp add: resampleTo16k_def Math_round_def resample_loop.simps resample_at_def
        read_f32_def array_store_def Let_def eval_nat_numeral)
  from resampleTo16k_interpolates_in_bounds[of 24000 "[Num 1, Num 2, Num 3, Num 4]"] e
  have "\<forall>i<length [Num 1, Num (5/2), Num 4].
          (24000 \<noteq> (16000::real) \<longrightarrow> [Num 1, Num (5/2), Num 4] ! i =
                js_plus
                  (js_times ([Num 1, Num 2, Num 3, Num 4] ! nat \<lfloor>real i * (24000 / 16000)\<rfloor>)
                     (Num (1 - (real i * (24000 / 16000) - of_int \<lfloor>real i * (24000 / 16000)\<rfloor>))))
                  (js_times
                     ([Num 1, Num 2, Num 3, Num 4] ! nat (min (\<lfloor>real i * (24000 / 16000)\<rfloor> + 1) (int (length [Num 1, Num 2, Num 3, Num 4]) - 1)))
                     (Num (real i * (24000 / 16000) - of_int \<lfloor>real i * (24000 / 16000)\<rfloor>))))"
    by simp
  then show ?thesis using e by simp
qed

section \<open>Properties of the base64 helpers\<close>

text \<open>The characters of the six-bit values are the base64 alphabet, in its order.\<close>

lemma b64_char_alphabet: "map b64_char [0..<64] = js_literal ''ABCDEFGHIJKLMNOPQRSTUVWXYZabcdefghijklmnopqrstuvwxyz0123456789+/''"
  by (simp add: b64_char_def js_literal_def upt_rec)

lemma sextet_of_b64_char: "v < 64 \<Longrightarrow> sextet_of (b64_char v) = Some v"
  by (auto simp: sextet_of_def b64_char_def)

lemma b64_char_not_ws: "\<not> is_ascii_whitespace (b64_char v)"
  by (auto simp: is_ascii_whitespace_def b64_char_def)

lemma b64_char_not_pad: "b64_char v \<noteq> 61"
  by (auto simp: b64_char_def)

lemma pad_not_ws: "\<not> is_ascii_whitespace 61"
  by (simp add: is_ascii_whitespace_def)

lemma b64_encode_no_ws: "filter (\<lambda>c. \<not> is_ascii_whitespace c) (b64_encode bs) = b64_encode bs"
  by (induction bs rule: b64_encode.induct) (simp_all add: b64_char_not_ws pad_not_ws)

lemma length_b64_encode: "length (b64_encode bs) mod 4 = 0"
  by (induction bs rule: b64_encode.induct) simp_all

lemma b64_encode_Nil_iff: "b64_encode bs = [] \<longleftrightarrow> bs = []"
  by (cases bs rule: b64_encode.cases) simp_all

lemma strip_padding_append:
  assumes "length g mod 4 = 0" "length xs mod 4 = 0" "xs \<noteq> []"
  shows "strip_padding (g @ xs) = g @ strip_padding xs"
proof -
  have "length xs \<noteq> 0" using assms(3) by simp
  then have "4 \<le> length xs" using assms(2) by presburger
  then have b: "butlast xs \<noteq> []" by (cases xs) auto
  have m: "length (g @ xs) mod 4 = 0" using assms(1,2) by (simp add: mod_add_eq[symmetric] flip: mod_add_eq)
  show ?thesis
    unfolding strip_padding_def using assms(3) b m assms(2)
    by (simp add: butlast_append del: length_append)
qed

lemma strip_padding_b64_encode:
  "strip_padding (b64_encode bs) = map b64_char (b64_sextets bs)"
proof (induction bs rule: b64_encode.induct)
  case 1
  show ?case by (simp add: strip_padding_def)
next
  case (2 a)
  show ?case by (simp add: strip_padding_def)
next
  case (3 a b)
  show ?case by (simp add: strip_padding_def b64_char_not_pad)
next
  case (4 a b c rest)
  show ?case
  proof (cases "rest = []")
    case True
    then show ?thesis by (simp add: strip_padding_def b64_char_not_pad)
  next
    case False
    then have ne: "b64_encode rest \<noteq> []" by (simp add: b64_encode_Nil_iff)
    have "strip_padding ([b64_char (a div 4), b64_char ((a mod 4) * 16 + b div 16),
             b64_char ((b mod 16) * 4 + c div 64), b64_char (c mod 64)] @ b64_encode rest)
        = [b64_char (a div 4), b64_char ((a mod 4) * 16 + b div 16),
             b64_char ((b mod 16) * 4 + c div 64), b64_char (c mod 64)] @ strip_padding (b64_encode rest)"
      by (rule strip_padding_append) (simp_all add: length_b64_encode ne)
    then show ?thesis using 4 by simp
  qed
qed

lemma length_b64_sextets: "length (b64_sextets bs) mod 4 \<noteq> 1"
  by (induction bs rule: b64_sextets.induct) simp_all

lemma b64_sextets_bound: "list_all (\<lambda>b. b < 256) bs \<Longrightarrow> list_all (\<lambda>v. v < 64) (b64_sextets bs)"
  by (induction bs rule: b64_sextets.induct) auto

lemma sextets_of_map_b64_char: "list_all (\<lambda>v. v < 64) vs \<Longrightarrow> sextets_of (map b64_char vs) = Some vs"
  by (induction vs) (simp_all add: sextet_of_b64_char)

lemma b64_decode_sextets: "list_all (\<lambda>b. b < 256) bs \<Longrightarrow> b64_decode (b64_sextets bs) = bs"
  by (induction bs rule: b64_sextets.induct) auto

lemma atob_b64_encode:
  assumes "list_all (\<lambda>b. b < 256) bs"
  shows "atob (b64_encode bs) = Inr bs"
  using assms length_b64_sextets[of bs]
  by (simp add: atob_def b64_encode_no_ws strip_padding_b64_encode Let_def
        sextets_of_map_b64_char b64_sextets_bound b64_decode_sextets)

lemma bytesToBase64_loop_eq:
  "bytesToBase64_loop bytes i binary = binary @ map unat (drop i bytes)"
proof (induction bytes i binary rule: bytesToBase64_loop.induct)
  case (1 bytes i binary)
  show ?case
  proof (cases "i < length bytes")
    case True
    have u: "unat (bytes ! i) < 65536"
      using unsigned_less[of "bytes ! i", where 'a = nat] by simp
    have "bytesToBase64_loop bytes i binary =
          bytesToBase64_loop bytes (i + 1) (binary @ [String_fromCharCode (unat (bytes ! i))])"
      using True by (subst bytesToBase64_loop.simps) simp
    also have "\<dots> = (binary @ [unat (bytes ! i)]) @ map unat (drop (i + 1) bytes)"
      using "1.IH"[OF True] u by (simp add: String_fromCharCode_def)
    also have "\<dots> = binary @ map unat (drop i bytes)"
      using True by (simp add: Cons_nth_drop_Suc[symmetric])
    finally show ?thesis .
  next
    case False
    then show ?thesis by (subst bytesToBase64_loop.simps) simp
  qed
qed

lemma length_base64ToBytes_loop: "length (base64ToBytes_loop s i bytes) = length bytes"
proof (induction s i bytes rule: base64ToBytes_loop.induct)
  case (1 s i bytes)
  then show ?case by (subst base64ToBytes_loop.simps) (simp add: array_store_def)
qed

lemma base64ToBytes_loop_nth:
  "length bytes = length s \<Longrightarrow> k < length s \<Longrightarrow>
   base64ToBytes_loop s i bytes ! k = (if i \<le> k then word_of_nat (s ! k) else bytes ! k)"
proof (induction s i bytes rule: base64ToBytes_loop.induct)
  case (1 s i bytes)
  show ?case
  proof (cases "i < length s")
    case True
    have "base64ToBytes_loop s i bytes ! k =
          base64ToBytes_loop s (i + 1) (array_store bytes i (word_of_nat (s ! i))) ! k"
      using True by (subst base64ToBytes_loop.simps) simp
    also have "\<dots> = (if i + 1 \<le> k then word_of_nat (s ! k)
                      else array_store bytes i (word_of_nat (s ! i)) ! k)"
      using "1.IH"[OF True] "1.prems" by (simp add: array_store_def)
    also have "\<dots> = (if i \<le> k then word_of_nat (s ! k) else bytes ! k)"
      using "1.prems" True by (cases "k = i") (auto simp: array_store_def)
    finally show ?thesis .
  next
    case False
    then show ?thesis using "1.prems" by (subst base64ToBytes_loop.simps) simp
  qed
qed

lemma base64ToBytes_loop_eq:
  "base64ToBytes_loop s 0 (replicate (length s) 0) = map word_of_nat s"
  by (rule nth_equalityI) (simp_all add: length_base64ToBytes_loop base64ToBytes_loop_nth)

lemma bytes_codes_small: "list_all (\<lambda>b. b < 256) (map unat (bytes :: 8 word list))"
proof -
  have "unat b < 256" for b :: "8 word"
    using unsigned_less[of b, where 'a = nat] by simp
  then show ?thesis by (simp add: list_all_iff)
qed

lemma bytesToBase64_eq: "bytesToBase64 bytes = Inr (b64_encode (map unat bytes))"
proof -
  have "\<not> list_ex (\<lambda>c. 255 < c) (map unat bytes)"
    using bytes_codes_small[of bytes] by (auto simp: list_all_iff list_ex_iff)
  then show ?thesis by (simp add: bytesToBase64_def bytesToBase64_loop_eq btoa_def)
qed

lemma base64ToBytes_b64_encode: "base64ToBytes (b64_encode (map unat bytes)) = Inr bytes"
  using base64ToBytes_loop_eq[of "map unat bytes"]
  by (simp add: base64ToBytes_def atob_b64_encode bytes_codes_small map_idI)

text \<open>
  Claim C10. For every byte array \<open>b\<close>, \<^verbatim>\<open>bytesToBase64\<close> returns a string and
  \<^verbatim>\<open>base64ToBytes\<close> of that string returns \<open>b\<close> again: the same length and the same
  byte at every index.
\<close>

theorem base64_round_trip: "\<exists>s. bytesToBase64 b = Inr s \<and> base64ToBytes s = Inr b"
  by (simp add: bytesToBase64_eq base64ToBytes_b64_encode)

section \<open>Properties of the encoder\<close>

lemma length_createPcmBlob_loop: "length (createPcmBlob_loop data i int16) = length int16"
proof (induction data i int16 rule: createPcmBlob_loop.induct)
  case (1 data i int16)
  then show ?case by (subst createPcmBlob_loop.simps) (simp add: array_store_def)
qed

lemma createPcmBlob_loop_nth:
  "length int16 = length data \<Longrightarrow> k < length data \<Longrightarrow>
   createPcmBlob_loop data i int16 ! k =
     (if i \<le> k then ToInt16 (scale_sample (clamp_sample (data ! k))) else int16 ! k)"
proof (induction data i int16 rule: createPcmBlob_loop.induct)
  case (1 data i int16)
  show ?case
  proof (cases "i < length data")
    case True
    let ?v = "ToInt16 (scale_sample (clamp_sample (data ! i)))"
    have "createPcmBlob_loop data i int16 ! k =
          createPcmBlob_loop data (i + 1) (array_store int16 i ?v) ! k"
      using True by (subst createPcmBlob_loop.simps) simp
    also have "\<dots> = (if i + 1 \<le> k then ToInt16 (scale_sample (clamp_sample (data ! k)))
                      else array_store int16 i ?v ! k)"
      using "1.IH"[OF True] "1.prems" by (simp add: array_store_def)
    also have "\<dots> = (if i \<le> k then ToInt16 (scale_sample (clamp_sample (data ! k))) else int16 ! k)"
      using "1.prems" True by (cases "k = i") (auto simp: array_store_def)
    finally show ?thesis .
  next
    case False
    then show ?thesis using "1.prems" by (subst createPcmBlob_loop.simps) simp
  qed
qed

lemma createPcmBlob_loop_eq:
  "createPcmBlob_loop data 0 (replicate (length data) 0) =
   map (\<lambda>x. ToInt16 (scale_sample (clamp_sample x))) data"
  by (rule nth_equalityI) (simp_all add: length_createPcmBlob_loop createPcmBlob_loop_nth)

lemma scaled_bounds:
  fixes r :: real
  defines "c \<equiv> max (- 1) (min 1 r)"
  shows "- 32768 \<le> js_trunc (if c < 0 then c * 32768 else c * 32767)"
    and "js_trunc (if c < 0 then c * 32768 else c * 32767) \<le> 32767"
proof -
  have c: "- 1 \<le> c" "c \<le> 1" by (simp_all add: c_def)
  show "- 32768 \<le> js_trunc (if c < 0 then c * 32768 else c * 32767)"
  proof (cases "c < 0")
    case True
    have "- 32768 \<le> c * 32768" using c by simp
    then have "- 32768 \<le> \<lceil>c * 32768\<rceil>" by (simp add: le_ceiling_iff)
    then show ?thesis using True by (simp add: js_trunc_def)
  next
    case False
    then have "0 \<le> c * 32767" by simp
    then have "0 \<le> \<lfloor>c * 32767\<rfloor>" by simp
    then show ?thesis using False by (simp add: js_trunc_def)
  qed
  show "js_trunc (if c < 0 then c * 32768 else c * 32767) \<le> 32767"
  proof (cases "c < 0")
    case True
    then have "c * 32768 \<le> 0" by simp
    then have "\<lceil>c * 32768\<rceil> \<le> 0" by (simp add: ceiling_le_iff)
    then show ?thesis using True by (simp add: js_trunc_def)
  next
    case False
    have "c * 32767 \<le> 32767" using c by simp
    then have "\<lfloor>c * 32767\<rfloor> \<le> 32767" by (simp add: floor_le_iff)
    then show ?thesis using False by (simp add: js_trunc_def)
  qed
qed

lemma sint_word_of_int_16:
  "- 32768 \<le> k \<Longrightarrow> k \<le> 32767 \<Longrightarrow> sint (word_of_int k :: 16 word) = k"
  by (simp add: sint_sbintrunc' signed_take_bit_int_eq_self)

lemma clamp_sample_Num: "clamp_sample (Num r) = Num (max (- 1) (min 1 r))"
  by (simp add: clamp_sample_def)

lemma scale_sample_Num:
  "scale_sample (Num c) = Num (if c < 0 then c * 32768 else c * 32767)"
  by (simp add: scale_sample_def)

lemma pcm_Num:
  "sint (ToInt16 (scale_sample (clamp_sample (Num r)))) =
   js_trunc (if max (- 1) (min 1 r) < 0 then max (- 1) (min 1 r) * 32768
             else max (- 1) (min 1 r) * 32767)"
proof -
  have "ToInt16 (scale_sample (clamp_sample (Num r))) =
        word_of_int (js_trunc (if max (- 1) (min 1 r) < 0 then max (- 1) (min 1 r) * 32768
             else max (- 1) (min 1 r) * 32767))"
    by (simp only: clamp_sample_Num scale_sample_Num ToInt16_def number.case)
  then show ?thesis
    using scaled_bounds[of r] by (simp only: sint_word_of_int_16)
qed

lemma pcm_PosInf: "sint (ToInt16 (scale_sample (clamp_sample PosInf))) = 32767"
  by (simp add: ToInt16_def scale_sample_def clamp_sample_def js_trunc_def)

lemma pcm_NegInf: "sint (ToInt16 (scale_sample (clamp_sample NegInf))) = - 32768"
  by (simp add: ToInt16_def scale_sample_def clamp_sample_def js_trunc_def)

lemma pcm_NaN: "sint (ToInt16 (scale_sample (clamp_sample NaN))) = 0"
  by (simp add: ToInt16_def scale_sample_def clamp_sample_def)

lemma int16_bytes_Cons:
  "int16_bytes (w # ws) = word_of_nat (unat w mod 256) # word_of_nat (unat w div 256) # int16_bytes ws"
  by (simp add: int16_bytes_def)

lemma length_int16_bytes: "length (int16_bytes ws) = 2 * length ws"
  by (induction ws) (simp_all add: int16_bytes_Cons, simp add: int16_bytes_def)

lemma int16_bytes_nth:
  "i < length ws \<Longrightarrow>
   int16_bytes ws ! (2 * i) = word_of_nat (unat (ws ! i) mod 256) \<and>
   int16_bytes ws ! (2 * i + 1) = word_of_nat (unat (ws ! i) div 256)"
proof (induction ws arbitrary: i)
  case Nil
  then show ?case by simp
next
  case (Cons w ws)
  show ?case
  proof (cases i)
    case 0
    then show ?thesis by (simp add: int16_bytes_Cons)
  next
    case (Suc j)
    then have "j < length ws" using Cons.prems by simp
    from Cons.IH[OF this] show ?thesis using Suc by (simp add: int16_bytes_Cons)
  qed
qed

lemma byte_pair_value:
  fixes w :: "16 word"
  shows "uint (word_of_nat (unat w mod 256) :: 8 word) +
         256 * uint (word_of_nat (unat w div 256) :: 8 word) = sint w mod 65536"
proof -
  have u: "unat w < 65536" using unsigned_less[of w, where 'a = nat] by simp
  have lo: "uint (word_of_nat (unat w mod 256) :: 8 word) = int (unat w mod 256)"
    by (simp only: uint_nat unat_of_nat) simp
  have "unat w div 256 < 256" using u by simp
  then have hi: "uint (word_of_nat (unat w div 256) :: 8 word) = int (unat w div 256)"
    by (simp only: uint_nat unat_of_nat) simp
  have "sint w mod 65536 = uint w"
    by (simp add: uint_sint take_bit_eq_mod)
  then have s: "sint w mod 65536 = int (unat w)" using uint_nat[of w] by linarith
  have "unat w mod 256 + 256 * (unat w div 256) = unat w" by (rule mod_mult_div_eq)
  then have "int (unat w mod 256) + 256 * int (unat w div 256) = int (unat w)" by linarith
  then show ?thesis using lo hi s by linarith
qed


lemma createPcmBlob_eq:
  "createPcmBlob data sampleRate =
   Inr \<lparr>blob_data = b64_encode (map unat (int16_bytes (map (\<lambda>x. ToInt16 (scale_sample (clamp_sample x))) data))),
        blob_mimeType = js_literal ''audio/pcm;rate='' @ decimal sampleRate\<rparr>"
  by (simp add: createPcmBlob_def Let_def createPcmBlob_loop_eq bytesToBase64_eq)

text \<open>
  Claim C4. For every input buffer, also one with values outside \<open>[-1, 1]\<close>, with
  infinities or with NaN, \<^verbatim>\<open>createPcmBlob\<close> returns a blob whose data decode to the
  little-endian bytes of 16-bit integers, one for each sample. The signed value of each
  integer is the truncation of the clamped sample times 32768 (negative) or 32767
  (otherwise), not reduced modulo \<open>2 ^ 16\<close>: the conversion never wraps around and every
  value lies in \<open>[-32768, 32767]\<close>. An infinity gives the nearest bound and NaN gives 0.
\<close>

theorem createPcmBlob_no_wraparound:
  "\<exists>blob int16. createPcmBlob data sampleRate = Inr blob \<and>
      base64ToBytes (blob_data blob) = Inr (int16_bytes int16) \<and>
      length int16 = length data \<and>
      (\<forall>i<length data.
         - 32768 \<le> sint (int16 ! i) \<and> sint (int16 ! i) \<le> 32767 \<and>
         sint (int16 ! i) =
           (case data ! i of
              Num r \<Rightarrow> js_trunc (if max (- 1) (min 1 r) < 0 then max (- 1) (min 1 r) * 32768
                                 else max (- 1) (min 1 r) * 32767)
            | PosInf \<Rightarrow> 32767
            | NegInf \<Rightarrow> - 32768
            | NaN \<Rightarrow> 0) \<and>
         uint (int16_bytes int16 ! (2 * i)) + 256 * uint (int16_bytes int16 ! (2 * i + 1)) =
           sint (int16 ! i) mod 65536)"
proof -
  let ?int16 = "map (\<lambda>x. ToInt16 (scale_sample (clamp_sample x))) data"
  let ?blob = "\<lparr>blob_data = b64_encode (map unat (int16_bytes ?int16)),
        blob_mimeType = js_literal ''audio/pcm;rate='' @ decimal sampleRate\<rparr>"
  have v: "sint (?int16 ! i) =
           (case data ! i of
              Num r \<Rightarrow> js_trunc (if max (- 1) (min 1 r) < 0 then max (- 1) (min 1 r) * 32768
                                 else max (- 1) (min 1 r) * 32767)
            | PosInf \<Rightarrow> 32767
            | NegInf \<Rightarrow> - 32768
            | NaN \<Rightarrow> 0)" if "i < length data" for i
    using that by (cases "data ! i") (simp_all add: pcm_Num pcm_PosInf pcm_NegInf pcm_NaN)
  have r: "- 32768 \<le> sint (?int16 ! i) \<and> sint (?int16 ! i) \<le> 32767" if "i < length data" for i
  proof (cases "data ! i")
    case (Num r)
    then show ?thesis using v[OF that] scaled_bounds[of r] by simp
  qed (use v[OF that] in simp_all)
  have b: "uint (int16_bytes ?int16 ! (2 * i)) + 256 * uint (int16_bytes ?int16 ! (2 * i + 1)) =
           sint (?int16 ! i) mod 65536" if "i < length data" for i
  proof -
    have "i < length ?int16" using that by simp
    from int16_bytes_nth[OF this] show ?thesis by (simp only: byte_pair_value)
  qed
  show ?thesis
  proof (intro exI conjI)
    show "createPcmBlob data sampleRate = Inr ?blob" by (rule createPcmBlob_eq)
    show "base64ToBytes (blob_data ?blob) = Inr (int16_bytes ?int16)"
      by (simp add: base64ToBytes_b64_encode)
    show "length ?int16 = length data" by simp
    show "\<forall>i<length data.
         - 32768 \<le> sint (?int16 ! i) \<and> sint (?int16 ! i) \<le> 32767 \<and>
         sint (?int16 ! i) =
           (case data ! i of
              Num r \<Rightarrow> js_trunc (if max (- 1) (min 1 r) < 0 then max (- 1) (min 1 r) * 32768
                                 else max (- 1) (min 1 r) * 32767)
            | PosInf \<Rightarrow> 32767
            | NegInf \<Rightarrow> - 32768
            | NaN \<Rightarrow> 0) \<and>
         uint (int16_bytes ?int16 ! (2 * i)) + 256 * uint (int16_bytes ?int16 ! (2 * i + 1)) =
           sint (?int16 ! i) mod 65536"
      using v r b by blast
  qed
qed

theorem createPcmBlob_no_wraparound_witness:
  "\<exists>blob int16. createPcmBlob [Num 3, Num (- 7)] 16000 = Inr blob \<and>
      base64ToBytes (blob_data blob) = Inr (int16_bytes int16) \<and>
      (1::nat) < length [Num 3, Num (- 7)] \<and>
      sint (int16 ! 0) = 32767 \<and> sint (int16 ! 1) = - 32768"
proof -
  from createPcmBlob_no_wraparound[of "[Num 3, Num (- 7)]" 16000]
  obtain blob int16 where
    h: "createPcmBlob [Num 3, Num (- 7)] 16000 = Inr blob"
       "base64ToBytes (blob_data blob) = Inr (int16_bytes int16)"
    and a: "\<forall>i<length [Num 3, Num (- 7)]. sint (int16 ! i) =
           (case [Num 3, Num (- 7)] ! i of
              Num r \<Rightarrow> js_trunc (if max (- 1) (min 1 r) < 0 then max (- 1) (min 1 r) * 32768
                                 else max (- 1) (min 1 r) * 32767)
            | PosInf \<Rightarrow> 32767
            | NegInf \<Rightarrow> - 32768
            | NaN \<Rightarrow> 0)"
    by blast
  from a have "sint (int16 ! 0) = 32767" by (simp add: js_trunc_def)
  moreover from a have "sint (int16 ! 1) = - 32768" by (simp add: js_trunc_def)
  ultimately show ?thesis using h by auto
qed

section \<open>Properties of the decoder\<close>

lemma length_int16_of_bytes: "length (int16_of_bytes data) = length data div 2"
  by (induction data rule: int16_of_bytes.induct) simp_all

lemma length_decode_frames:
  "length (decode_frames d n fc c i cd) = length cd"
proof (induction d n fc c i cd rule: decode_frames.induct)
  case (1 d n fc c i cd)
  then show ?case by (subst decode_frames.simps) (simp add: array_store_def)
qed

lemma decode_frames_nth:
  "length cd = nat \<lfloor>fc\<rfloor> \<Longrightarrow> k < length cd \<Longrightarrow>
   decode_frames d n fc c i cd ! k = (if i \<le> k then int16_sample d (k * n + c) else cd ! k)"
proof (induction d n fc c i cd rule: decode_frames.induct)
  case (1 d n fc c i cd)
  show ?case
  proof (cases "real i < fc")
    case True
    let ?v = "int16_sample d (i * n + c)"
    have "decode_frames d n fc c i cd ! k = decode_frames d n fc c (i + 1) (array_store cd i ?v) ! k"
      using True by (subst decode_frames.simps) simp
    also have "\<dots> = (if i + 1 \<le> k then int16_sample d (k * n + c) else array_store cd i ?v ! k)"
      using "1.IH"[OF True] "1.prems" by (simp add: array_store_def)
    also have "\<dots> = (if i \<le> k then int16_sample d (k * n + c) else cd ! k)"
      using "1.prems" by (cases "k = i") (auto simp: array_store_def)
    finally show ?thesis .
  next
    case False
    then have "fc \<le> real i" by simp
    then have "\<lfloor>fc\<rfloor> \<le> int i" by (simp add: floor_le_iff)
    then have "k < i" using "1.prems" by linarith
    then show ?thesis using False by (subst decode_frames.simps) simp
  qed
qed

lemma decode_channels_fields:
  "buf_sampleRate (decode_channels d n fc ch b) = buf_sampleRate b \<and>
   buf_length (decode_channels d n fc ch b) = buf_length b \<and>
   length (buf_channels (decode_channels d n fc ch b)) = length (buf_channels b)"
proof (induction d n fc ch b rule: decode_channels.induct)
  case (1 d n fc ch b)
  then show ?case by (subst (1 2 3) decode_channels.simps) (simp add: array_store_def)
qed

lemma decode_channels_nth:
  "length (buf_channels b) = n \<Longrightarrow> c < n \<Longrightarrow>
   buf_channels (decode_channels d n fc ch b) ! c =
     (if ch \<le> c then decode_frames d n fc c 0 (buf_channels b ! c) else buf_channels b ! c)"
proof (induction d n fc ch b rule: decode_channels.induct)
  case (1 d n fc ch b)
  show ?case
  proof (cases "ch < n")
    case True
    let ?b = "b\<lparr>buf_channels := array_store (buf_channels b) ch
                 (decode_frames d n fc ch 0 (buf_channels b ! ch))\<rparr>"
    have "buf_channels (decode_channels d n fc ch b) ! c =
          buf_channels (decode_channels d n fc (ch + 1) ?b) ! c"
      using True by (subst decode_channels.simps) simp
    also have "\<dots> = (if ch + 1 \<le> c then decode_frames d n fc c 0 (buf_channels ?b ! c)
                      else buf_channels ?b ! c)"
      using "1.IH"[OF True] "1.prems" by (simp add: array_store_def)
    also have "\<dots> = (if ch \<le> c then decode_frames d n fc c 0 (buf_channels b ! c)
                      else buf_channels b ! c)"
      using "1.prems" True by (cases "c = ch") (auto simp: array_store_def)
    finally show ?thesis .
  next
    case False
    then show ?thesis using "1.prems" by (subst decode_channels.simps) simp
  qed
qed

lemma decodeAudioData_Inr:
  assumes "decodeAudioData data rate n = Inr b"
  shows "buf_sampleRate b = rate" "8000 \<le> rate" "rate \<le> 96000" "0 < buf_length b"
        "buf_length b = length data div 2 div n" "even (length data)" "0 < n" "n \<le> 32"
        "length (buf_channels b) = n"
proof -
  let ?fc = "real (length (int16_of_bytes data)) / real n"
  from assms have ev: "even (length data)"
    by (auto simp: decodeAudioData_def Int16Array_of_buffer_def split: if_splits)
  with assms obtain b0 where
    c: "createBuffer n ?fc rate = Inr b0" and
    b: "b = decode_channels (int16_of_bytes data) n ?fc 0 b0"
    by (auto simp: decodeAudioData_def Int16Array_of_buffer_def Let_def split: sum.splits)
  have fl: "nat \<lfloor>?fc\<rfloor> = length data div 2 div n"
    by (simp add: length_int16_of_bytes floor_divide_of_nat_eq)
  from c have ok: "n \<noteq> 0" "n \<le> 32" "nat \<lfloor>?fc\<rfloor> \<noteq> 0" "8000 \<le> rate" "rate \<le> 96000"
    and b0: "b0 = \<lparr>buf_sampleRate = rate, buf_length = nat \<lfloor>?fc\<rfloor>,
                 buf_channels = replicate n (replicate (nat \<lfloor>?fc\<rfloor>) (Num 0))\<rparr>"
    by (auto simp: createBuffer_def split: if_splits)
  show "buf_sampleRate b = rate" using b b0 by (simp add: decode_channels_fields)
  show "8000 \<le> rate" "rate \<le> 96000" using ok by simp_all
  show "0 < buf_length b" using b b0 ok fl by (simp add: decode_channels_fields)
  show "buf_length b = length data div 2 div n" using b b0 fl by (simp add: decode_channels_fields)
  show "even (length data)" by (rule ev)
  show "0 < n" "n \<le> 32" using ok by simp_all
  show "length (buf_channels b) = n" using b b0 by (simp add: decode_channels_fields)
qed

lemma decodeAudioData_ok:
  assumes "0 < n" "n \<le> 32" "8000 \<le> rate" "rate \<le> 96000"
    and "even (length data)" "0 < length data div 2 div n"
  shows "\<exists>b. decodeAudioData data rate n = Inr b \<and> buf_sampleRate b = rate \<and>
           buf_length b = length data div 2 div n \<and> length (buf_channels b) = n \<and>
           (\<forall>c<n. buf_channels b ! c =
              map (\<lambda>i. Num (real_of_int (sint (int16_of_bytes data ! (i * n + c))) / 32768))
                [0..<length data div 2 div n])"
proof -
  let ?d = "int16_of_bytes data"
  let ?fc = "real (length ?d) / real n"
  let ?F = "length data div 2 div n"
  let ?init = "\<lparr>buf_sampleRate = rate, buf_length = nat \<lfloor>?fc\<rfloor>,
                 buf_channels = replicate n (replicate (nat \<lfloor>?fc\<rfloor>) (Num 0))\<rparr>"
  let ?b = "decode_channels ?d n ?fc 0 ?init"
  have fl: "nat \<lfloor>?fc\<rfloor> = ?F"
    by (simp add: length_int16_of_bytes floor_divide_of_nat_eq)
  have c: "createBuffer n ?fc rate = Inr ?init"
    using assms fl by (simp add: createBuffer_def)
  have r: "decodeAudioData data rate n = Inr ?b"
    using assms(5) by (simp add: decodeAudioData_def Int16Array_of_buffer_def Let_def c)
  have ch: "buf_channels ?b ! c =
            map (\<lambda>i. Num (real_of_int (sint (?d ! (i * n + c))) / 32768)) [0..<?F]"
    if "c < n" for c
  proof (rule nth_equalityI)
    have e: "buf_channels ?b ! c = decode_frames ?d n ?fc c 0 (replicate (nat \<lfloor>?fc\<rfloor>) (Num 0))"
      using decode_channels_nth[of ?init n c ?d ?fc 0] that by simp
    show "length (buf_channels ?b ! c) =
          length (map (\<lambda>i. Num (real_of_int (sint (?d ! (i * n + c))) / 32768)) [0..<?F])"
      using e fl by (simp add: length_decode_frames)
    fix k assume "k < length (buf_channels ?b ! c)"
    then have k: "k < ?F" using e fl by (simp add: length_decode_frames)
    have "k + 1 \<le> ?F" using k by simp
    then have "(k + 1) * n \<le> ?F * n" by (rule mult_le_mono1)
    also have "\<dots> \<le> length data div 2" by simp
    finally have "k * n + c < length ?d" using that by (simp add: length_int16_of_bytes)
    then show "buf_channels ?b ! c ! k =
          map (\<lambda>i. Num (real_of_int (sint (?d ! (i * n + c))) / 32768)) [0..<?F] ! k"
      using e k fl decode_frames_nth[of "replicate (nat \<lfloor>?fc\<rfloor>) (Num 0)" ?fc k ?d n c 0]
      by (simp add: int16_sample_def)
  qed
  show ?thesis
  proof (intro exI conjI)
    show "decodeAudioData data rate n = Inr ?b" by (rule r)
    show "buf_sampleRate ?b = rate" by (simp add: decode_channels_fields)
    show "buf_length ?b = ?F" using fl by (simp add: decode_channels_fields)
    show "length (buf_channels ?b) = n" by (simp add: decode_channels_fields)
    show "\<forall>c<n. buf_channels ?b ! c =
              map (\<lambda>i. Num (real_of_int (sint (?d ! (i * n + c))) / 32768)) [0..<?F]"
      using ch by blast
  qed
qed

lemma decodeAudioData_fails_iff:
  assumes "0 < n" "n \<le> 32" "8000 \<le> rate" "rate \<le> 96000"
  shows "isl (decodeAudioData data rate n) \<longleftrightarrow> odd (length data) \<or> length data div 2 div n = 0"
proof
  assume f: "isl (decodeAudioData data rate n)"
  show "odd (length data) \<or> length data div 2 div n = 0"
  proof (rule ccontr)
    assume "\<not> (odd (length data) \<or> length data div 2 div n = 0)"
    then have "even (length data)" "0 < length data div 2 div n" by simp_all
    from decodeAudioData_ok[OF assms this] f show False by auto
  qed
next
  assume "odd (length data) \<or> length data div 2 div n = 0"
  then show "isl (decodeAudioData data rate n)"
  proof (cases "decodeAudioData data rate n")
    case (Inl e) then show ?thesis by simp
  next
    case (Inr b)
    assume h: "odd (length data) \<or> length data div 2 div n = 0"
    from decodeAudioData_Inr(4,5,6)[OF Inr] h show ?thesis by simp
  qed
qed

lemma int16_of_bytes_nth:
  "k < length data div 2 \<Longrightarrow>
   int16_of_bytes data ! k = word_of_nat (unat (data ! (2 * k)) + 256 * unat (data ! (2 * k + 1)))"
proof (induction data arbitrary: k rule: int16_of_bytes.induct)
  case (1 lo hi rest)
  show ?case
  proof (cases k)
    case 0
    then show ?thesis by simp
  next
    case (Suc j)
    then have "j < length rest div 2" using "1.prems" by simp
    from "1.IH"[OF this] show ?thesis using Suc by simp
  qed
qed simp_all

lemma int16_of_bytes_int16_bytes: "int16_of_bytes (int16_bytes ws) = ws"
proof (induction ws)
  case Nil
  show ?case by (simp add: int16_bytes_def)
next
  case (Cons w ws)
  have u: "unat w < 65536" using unsigned_less[of w, where 'a = nat] by simp
  have lo: "unat (word_of_nat (unat w mod 256) :: 8 word) = unat w mod 256"
    by (simp add: unat_of_nat)
  have "unat w div 256 < 256" using u by simp
  then have hi: "unat (word_of_nat (unat w div 256) :: 8 word) = unat w div 256"
    by (simp add: unat_of_nat)
  have "unat w mod 256 + 256 * (unat w div 256) = unat w" by (rule mod_mult_div_eq)
  then have "(word_of_nat (unat w mod 256 + 256 * (unat w div 256)) :: 16 word) = w"
    by (simp only: of_nat_unat ucast_id)
  then show ?case using Cons lo hi by (simp add: int16_bytes_Cons)
qed

lemma quantization_error:
  fixes r :: real
  assumes "- 1 \<le> r" "r \<le> 1"
  defines "d \<equiv> real_of_int (js_trunc (if r < 0 then r * 32768 else r * 32767)) / 32768"
  shows "\<bar>d - r\<bar> < 2 / 32768" and "r < 0 \<Longrightarrow> \<bar>d - r\<bar> < 1 / 32768"
proof -
  have neg: "\<bar>d - r\<bar> < 1 / 32768" if "r < 0"
  proof -
    have d: "d = real_of_int \<lceil>r * 32768\<rceil> / 32768" using that by (simp add: d_def js_trunc_def)
    have a: "r * 32768 \<le> real_of_int \<lceil>r * 32768\<rceil>" by (rule le_of_int_ceiling)
    have b: "real_of_int \<lceil>r * 32768\<rceil> < r * 32768 + 1" by linarith
    show ?thesis unfolding d using a b by linarith
  qed
  have pos: "\<bar>d - r\<bar> < 2 / 32768" if "\<not> r < 0"
  proof -
    have d: "d = real_of_int \<lfloor>r * 32767\<rfloor> / 32768" using that by (simp add: d_def js_trunc_def)
    have a: "real_of_int \<lfloor>r * 32767\<rfloor> \<le> r * 32767" by (rule of_int_floor_le)
    have b: "r * 32767 < real_of_int \<lfloor>r * 32767\<rfloor> + 1" by linarith
    show ?thesis unfolding d using a b assms(2) that by linarith
  qed
  show "\<bar>d - r\<bar> < 2 / 32768" using neg pos by (cases "r < 0") auto
  show "r < 0 \<Longrightarrow> \<bar>d - r\<bar> < 1 / 32768" by (rule neg)
qed


lemma decode_encode:
  assumes "data \<noteq> []" "8000 \<le> sampleRate" "sampleRate \<le> 96000"
  shows "\<exists>blob bytes buf.
           createPcmBlob data sampleRate = Inr blob \<and>
           base64ToBytes (blob_data blob) = Inr bytes \<and>
           decodeAudioData bytes (real sampleRate) 1 = Inr buf \<and>
           buf_channels buf =
             [map (\<lambda>x. Num (real_of_int (sint (ToInt16 (scale_sample (clamp_sample x)))) / 32768)) data]"
proof -
  let ?int16 = "map (\<lambda>x. ToInt16 (scale_sample (clamp_sample x))) data"
  let ?blob = "\<lparr>blob_data = b64_encode (map unat (int16_bytes ?int16)),
        blob_mimeType = js_literal ''audio/pcm;rate='' @ decimal sampleRate\<rparr>"
  have l: "length (int16_bytes ?int16) div 2 div 1 = length data"
    by (simp add: length_int16_bytes)
  have "0 < length data" using assms(1) by simp
  then have p: "0 < length (int16_bytes ?int16) div 2 div 1" using l by simp
  have e: "even (length (int16_bytes ?int16))" by (simp add: length_int16_bytes)
  have r: "8000 \<le> real sampleRate" "real sampleRate \<le> 96000" using assms(2,3) by simp_all
  from decodeAudioData_ok[OF _ _ r e p]
  obtain buf where
    d: "decodeAudioData (int16_bytes ?int16) (real sampleRate) 1 = Inr buf" and
    n: "length (buf_channels buf) = 1" and
    c: "buf_channels buf ! 0 =
          map (\<lambda>i. Num (real_of_int (sint (int16_of_bytes (int16_bytes ?int16) ! (i * 1 + 0))) / 32768))
            [0..<length (int16_bytes ?int16) div 2 div 1]"
    by auto
  have "buf_channels buf ! 0 =
        map (\<lambda>x. Num (real_of_int (sint (ToInt16 (scale_sample (clamp_sample x)))) / 32768)) data"
    unfolding c l by (rule nth_equalityI) (simp_all add: int16_of_bytes_int16_bytes)
  moreover have "buf_channels buf = [buf_channels buf ! 0]"
    using n by (cases "buf_channels buf") simp_all
  ultimately have ch: "buf_channels buf =
        [map (\<lambda>x. Num (real_of_int (sint (ToInt16 (scale_sample (clamp_sample x)))) / 32768)) data]"
    by simp
  show ?thesis
  proof (intro exI conjI)
    show "createPcmBlob data sampleRate = Inr ?blob" by (rule createPcmBlob_eq)
    show "base64ToBytes (blob_data ?blob) = Inr (int16_bytes ?int16)"
      by (simp add: base64ToBytes_b64_encode)
    show "decodeAudioData (int16_bytes ?int16) (real sampleRate) 1 = Inr buf" by (rule d)
    show "buf_channels buf =
        [map (\<lambda>x. Num (real_of_int (sint (ToInt16 (scale_sample (clamp_sample x)))) / 32768)) data]"
      by (rule ch)
  qed
qed

subsection \<open>Encoding and decoding again\<close>

text \<open>
  Claim C3, as stated, fails: the sample \<open>65535 / 65536\<close> lies in \<open>[-1, 1]\<close>, its encoding
  is the integer 32766 and decoding gives \<open>32766 / 32768\<close>, which is \<open>3 / 65536\<close> away: one
  and a half quantization steps. And the empty buffer is encoded to no bytes, for which
  \<^verbatim>\<open>decodeAudioData\<close> raises an error.
\<close>

theorem codec_round_trip_counterexample:
  "- 1 \<le> (65535 / 65536 :: real) \<and> (65535 / 65536 :: real) \<le> 1 \<and>
   createPcmBlob [Num (65535 / 65536)] 16000 =
     Inr \<lparr>blob_data = js_literal ''/n8='',
          blob_mimeType = js_literal ''audio/pcm;rate=16000''\<rparr> \<and>
   base64ToBytes (js_literal ''/n8='') = Inr [254, 127] \<and>
   decodeAudioData [254, 127] 16000 1 =
     Inr \<lparr>buf_sampleRate = 16000, buf_length = 1, buf_channels = [[Num (32766 / 32768)]]\<rparr> \<and>
   \<not> \<bar>32766 / 32768 - 65535 / 65536 :: real\<bar> \<le> 1 / 32768 \<and>
   createPcmBlob [] 16000 =
     Inr \<lparr>blob_data = [], blob_mimeType = js_literal ''audio/pcm;rate=16000''\<rparr> \<and>
   base64ToBytes [] = Inr [] \<and>
   decodeAudioData [] 16000 1 = Inl NotSupportedError"
proof -
  have 1: "createPcmBlob [Num (65535 / 65536)] 16000 =
     Inr \<lparr>blob_data = js_literal ''/n8='',
          blob_mimeType = js_literal ''audio/pcm;rate=16000''\<rparr>"
    by (simp add: createPcmBlob_eq ToInt16_def scale_sample_def clamp_sample_def js_trunc_def
        int16_bytes_def js_literal_def b64_char_def decimal.simps)
  have 2: "base64ToBytes (js_literal ''/n8='') = Inr [254, 127]"
    by (simp add: base64ToBytes_def atob_def js_literal_def is_ascii_whitespace_def
        strip_padding_def sextet_of_def base64ToBytes_loop.simps array_store_def)
  have 3: "decodeAudioData [254, 127] 16000 1 =
     Inr \<lparr>buf_sampleRate = 16000, buf_length = 1, buf_channels = [[Num (32766 / 32768)]]\<rparr>"
    by (simp add: decodeAudioData_def Int16Array_of_buffer_def createBuffer_def Let_def
        decode_channels.simps decode_frames.simps array_store_def int16_sample_def)
  have 4: "\<not> \<bar>32766 / 32768 - 65535 / 65536 :: real\<bar> \<le> 1 / 32768" by simp
  have 5: "createPcmBlob [] 16000 =
     Inr \<lparr>blob_data = [], blob_mimeType = js_literal ''audio/pcm;rate=16000''\<rparr>"
    by (simp add: createPcmBlob_eq int16_bytes_def js_literal_def decimal.simps)
  have 6: "base64ToBytes [] = Inr []"
    by (simp add: base64ToBytes_def atob_def strip_padding_def base64ToBytes_loop.simps)
  have 7: "decodeAudioData [] 16000 1 = Inl NotSupportedError"
    by (simp add: decodeAudioData_def Int16Array_of_buffer_def createBuffer_def)
  show ?thesis using 1 2 3 4 5 6 7 by simp
qed

text \<open>
  Claim C3, amended. For every non-empty buffer of samples in \<open>[-1, 1]\<close> and a sample
  rate from 8000 to 96000, \<^verbatim>\<open>createPcmBlob\<close> returns a blob, \<^verbatim>\<open>base64ToBytes\<close> of its
  data returns bytes and \<^verbatim>\<open>decodeAudioData\<close> of these bytes at that rate and one channel
  returns a buffer with one channel of the length of the input, in which every sample
  differs from the input sample by less than two quantization steps, \<open>2 / 32768\<close>, and by
  less than one step, \<open>1 / 32768\<close>, when the input sample is negative.
\<close>

theorem codec_round_trip:
  assumes "data \<noteq> []" and "\<forall>x\<in>set data. \<exists>r. x = Num r \<and> - 1 \<le> r \<and> r \<le> 1"
    and "8000 \<le> sampleRate" and "sampleRate \<le> 96000"
  shows "\<exists>blob bytes buf channel.
           createPcmBlob data sampleRate = Inr blob \<and>
           base64ToBytes (blob_data blob) = Inr bytes \<and>
           decodeAudioData bytes (real sampleRate) 1 = Inr buf \<and>
           buf_channels buf = [channel] \<and> length channel = length data \<and>
           (\<forall>i<length data. \<exists>r d. data ! i = Num r \<and> channel ! i = Num d \<and>
               \<bar>d - r\<bar> < 2 / 32768 \<and> (r < 0 \<longrightarrow> \<bar>d - r\<bar> < 1 / 32768))"
proof -
  let ?dec = "\<lambda>x. Num (real_of_int (sint (ToInt16 (scale_sample (clamp_sample x)))) / 32768)"
  from decode_encode[OF assms(1,3,4)]
  obtain blob bytes buf where
    h: "createPcmBlob data sampleRate = Inr blob"
       "base64ToBytes (blob_data blob) = Inr bytes"
       "decodeAudioData bytes (real sampleRate) 1 = Inr buf"
       "buf_channels buf = [map ?dec data]"
    by blast
  have e: "\<exists>r d. data ! i = Num r \<and> map ?dec data ! i = Num d \<and>
               \<bar>d - r\<bar> < 2 / 32768 \<and> (r < 0 \<longrightarrow> \<bar>d - r\<bar> < 1 / 32768)"
    if "i < length data" for i
  proof -
    from that assms(2) obtain r where r: "data ! i = Num r" "- 1 \<le> r" "r \<le> 1"
      by (metis nth_mem)
    have m: "max (- 1) (min 1 r) = r" using r by simp
    let ?d = "real_of_int (js_trunc (if r < 0 then r * 32768 else r * 32767)) / 32768"
    have s: "sint (ToInt16 (scale_sample (clamp_sample (Num r)))) =
             js_trunc (if r < 0 then r * 32768 else r * 32767)"
      using pcm_Num[of r] unfolding m .
    have "map ?dec data ! i = ?dec (data ! i)" using that by (rule nth_map)
    then have "map ?dec data ! i = Num ?d" by (simp only: r(1) s)
    moreover have "\<bar>?d - r\<bar> < 2 / 32768" using quantization_error(1)[OF r(2,3)] .
    moreover have "r < 0 \<longrightarrow> \<bar>?d - r\<bar> < 1 / 32768" using quantization_error(2)[OF r(2,3)] by blast
    ultimately show ?thesis using r(1) by blast
  qed
  show ?thesis
  proof (intro exI conjI)
    show "createPcmBlob data sampleRate = Inr blob" by (rule h(1))
    show "base64ToBytes (blob_data blob) = Inr bytes" by (rule h(2))
    show "decodeAudioData bytes (real sampleRate) 1 = Inr buf" by (rule h(3))
    show "buf_channels buf = [map ?dec data]" by (rule h(4))
    show "length (map ?dec data) = length data" by simp
    show "\<forall>i<length data. \<exists>r d. data ! i = Num r \<and> map ?dec data ! i = Num d \<and>
               \<bar>d - r\<bar> < 2 / 32768 \<and> (r < 0 \<longrightarrow> \<bar>d - r\<bar> < 1 / 32768)"
      using e by blast
  qed
qed


theorem codec_round_trip_witness:
  "[Num 1, Num (- 1), Num 0] \<noteq> [] \<and>
   (8000::nat) \<le> 16000 \<and> (16000::nat) \<le> 96000 \<and>
   (\<exists>blob bytes buf channel.
      createPcmBlob [Num 1, Num (- 1), Num 0] 16000 = Inr blob \<and>
      base64ToBytes (blob_data blob) = Inr bytes \<and>
      decodeAudioData bytes (real 16000) 1 = Inr buf \<and>
      buf_channels buf = [channel] \<and> length channel = 3 \<and>
      (\<exists>d0 d1 d2. channel = [Num d0, Num d1, Num d2] \<and>
         \<bar>d0 - 1\<bar> < 2 / 32768 \<and> \<bar>d1 - (- 1)\<bar> < 1 / 32768 \<and> \<bar>d2 - 0\<bar> < 2 / 32768))"
proof -
  let ?data = "[Num 1, Num (- 1), Num 0]"
  have h: "?data \<noteq> []" "\<forall>x\<in>set ?data. \<exists>r. x = Num r \<and> - 1 \<le> r \<and> r \<le> 1"
          "(8000::nat) \<le> 16000" "(16000::nat) \<le> 96000"
    by simp_all
  from codec_round_trip[OF h]
  obtain blob bytes buf channel where
    r: "createPcmBlob ?data 16000 = Inr blob" "base64ToBytes (blob_data blob) = Inr bytes"
       "decodeAudioData bytes (real 16000) 1 = Inr buf" "buf_channels buf = [channel]"
       "length channel = length ?data"
    and e: "\<forall>i<length ?data. \<exists>r d. ?data ! i = Num r \<and> channel ! i = Num d \<and>
               \<bar>d - r\<bar> < 2 / 32768 \<and> (r < 0 \<longrightarrow> \<bar>d - r\<bar> < 1 / 32768)"
    by blast
  from e[rule_format, of 0] obtain d0 where d0: "channel ! 0 = Num d0" "\<bar>d0 - 1\<bar> < 2 / 32768"
    by auto
  from e[rule_format, of 1] obtain d1 where d1: "channel ! 1 = Num d1" "\<bar>d1 - (- 1)\<bar> < 1 / 32768"
    by auto
  from e[rule_format, of 2] obtain d2 where d2: "channel ! 2 = Num d2" "\<bar>d2 - 0\<bar> < 2 / 32768"
    by auto
  have l: "length channel = 3" using r(5) by simp
  then obtain a b c where abc: "channel = [a, b, c]"
    by (metis (no_types, opaque_lifting) length_0_conv length_Suc_conv numeral_3_eq_3)
  have ch: "channel = [Num d0, Num d1, Num d2]"
    using d0(1) d1(1) d2(1) unfolding abc by simp
  show ?thesis
    using h(1,3,4) r(1,2,3,4) l ch d0(2) d1(2) d2(2) by blast
qed

section \<open>Properties of the playback scheduler and the volume\<close>

lemma gapless_append:
  "gapless c (xs @ ys) \<longleftrightarrow> gapless c xs \<and> gapless (cursor_after c xs) ys"
  by (induction xs arbitrary: c) (auto split: option.splits)

lemma cursor_after_append:
  "cursor_after c (xs @ ys) = cursor_after (cursor_after c xs) ys"
  by (induction xs arbitrary: c) (auto split: option.splits)

lemma gapless_key_cong:
  "map sched_key xs = map sched_key ys \<Longrightarrow> gapless c xs = gapless c ys"
proof (induction xs arbitrary: ys c)
  case Nil
  then show ?case by simp
next
  case (Cons x xs)
  then obtain y ys' where ys: "ys = y # ys'" by (cases ys) auto
  with Cons.prems have k: "sched_key x = sched_key y" "map sched_key xs = map sched_key ys'"
    by simp_all
  from k(1) have "src_start x = src_start y" "src_buffer x = src_buffer y"
    by (simp_all add: sched_key_def)
  then show ?case using Cons.IH[OF k(2)] ys by (simp split: option.splits)
qed

lemma cursor_after_key_cong:
  "map sched_key xs = map sched_key ys \<Longrightarrow> cursor_after c xs = cursor_after c ys"
proof (induction xs arbitrary: ys c)
  case Nil
  then show ?case by simp
next
  case (Cons x xs)
  then obtain y ys' where ys: "ys = y # ys'" by (cases ys) auto
  with Cons.prems have k: "sched_key x = sched_key y" "map sched_key xs = map sched_key ys'"
    by simp_all
  from k(1) have "src_start x = src_start y" "src_buffer x = src_buffer y"
    by (simp_all add: sched_key_def)
  then show ?case using Cons.IH[OF k(2)] ys by (simp split: option.splits)
qed

lemma duration_decoded:
  assumes "decodeAudioData data rate n = Inr b"
  shows "0 < duration b"
  using decodeAudioData_Inr(1,2,4)[OF assms] by (simp add: duration_def)

lemma play_audio_cases:
  "(\<exists>e. play_audio ctx b64 s =
            s\<lparr>outputAudioContext := Some (ctx\<lparr>ctx_state := Running\<rparr>),
              nextStartTime := max (nextStartTime s) (currentTime ctx),
              console := console s @ [e]\<rparr>) \<or>
         (\<exists>bytes buf. base64ToBytes b64 = Inr bytes \<and> decodeAudioData bytes 24000 1 = Inr buf \<and>
            play_audio ctx b64 s =
            s\<lparr>outputAudioContext := Some (ctx\<lparr>ctx_state := Running\<rparr>),
              nextStartTime := max (nextStartTime s) (currentTime ctx) + duration buf,
              sources := sources s @
                [\<lparr>src_buffer = buf, src_start = Some (max (nextStartTime s) (currentTime ctx)),
                  src_stopped = False, src_ended = False\<rparr>],
              activeSources := activeSources s @ [length (sources s)]\<rparr>)"
proof -
  have c: "(if ctx_state ctx = Suspended then ctx\<lparr>ctx_state := Running\<rparr> else ctx) =
           ctx\<lparr>ctx_state := Running\<rparr>"
    by (cases "ctx_state ctx") simp_all
  show ?thesis
    unfolding play_audio_def Let_def c
    by (auto simp: catch_decoding_def source_start_def split: sum.splits)
qed


lemma handleMessage_no_interrupt:
  assumes "\<not> msg_interrupted m"
  shows "(sources (handleMessage m s) = sources s \<and>
          activeSources (handleMessage m s) = activeSources s \<and>
          nextStartTime s \<le> nextStartTime (handleMessage m s)) \<or>
         (\<exists>ctx buf. outputAudioContext s = Some ctx \<and>
            sources (handleMessage m s) = sources s @
              [\<lparr>src_buffer = buf, src_start = Some (max (nextStartTime s) (currentTime ctx)),
                src_stopped = False, src_ended = False\<rparr>] \<and>
            activeSources (handleMessage m s) = activeSources s @ [length (sources s)] \<and>
            nextStartTime (handleMessage m s) =
              max (nextStartTime s) (currentTime ctx) + duration buf \<and>
            0 < duration buf)"
proof (cases "outputAudioContext s")
  case None
  then show ?thesis by (simp add: handleMessage_def)
next
  case (Some ctx)
  show ?thesis
  proof (cases "outputNode s")
    case None
    then show ?thesis using Some by (simp add: handleMessage_def)
  next
    case g: (Some gain)
    show ?thesis
    proof (cases "msg_audio m")
      case None
      then show ?thesis using Some g assms by (simp add: handleMessage_def)
    next
      case a: (Some b64)
      show ?thesis
      proof (cases "b64 = []")
        case True
        then show ?thesis using Some g a assms by (simp add: handleMessage_def)
      next
        case False
        then have h: "handleMessage m s = play_audio ctx b64 s"
          using Some g a assms by (simp add: handleMessage_def)
        from play_audio_cases[of ctx b64 s] show ?thesis
        proof
          assume "\<exists>e. play_audio ctx b64 s =
            s\<lparr>outputAudioContext := Some (ctx\<lparr>ctx_state := Running\<rparr>),
              nextStartTime := max (nextStartTime s) (currentTime ctx),
              console := console s @ [e]\<rparr>"
          then show ?thesis using h by auto
        next
          assume "\<exists>bytes buf. base64ToBytes b64 = Inr bytes \<and> decodeAudioData bytes 24000 1 = Inr buf \<and>
            play_audio ctx b64 s =
            s\<lparr>outputAudioContext := Some (ctx\<lparr>ctx_state := Running\<rparr>),
              nextStartTime := max (nextStartTime s) (currentTime ctx) + duration buf,
              sources := sources s @
                [\<lparr>src_buffer = buf, src_start = Some (max (nextStartTime s) (currentTime ctx)),
                  src_stopped = False, src_ended = False\<rparr>],
              activeSources := activeSources s @ [length (sources s)]\<rparr>"
          then obtain bytes buf where
            d: "decodeAudioData bytes 24000 1 = Inr buf" and
            p: "play_audio ctx b64 s =
            s\<lparr>outputAudioContext := Some (ctx\<lparr>ctx_state := Running\<rparr>),
              nextStartTime := max (nextStartTime s) (currentTime ctx) + duration buf,
              sources := sources s @
                [\<lparr>src_buffer = buf, src_start = Some (max (nextStartTime s) (currentTime ctx)),
                  src_stopped = False, src_ended = False\<rparr>],
              activeSources := activeSources s @ [length (sources s)]\<rparr>"
            by blast
          have "0 < duration buf" using d by (rule duration_decoded)
          then show ?thesis using h p Some by auto
        qed
      qed
    qed
  qed
qed

lemma step_no_interrupt:
  assumes "\<not> interrupts e"
  shows "(map sched_key (sources (step e s)) = map sched_key (sources s) \<and>
          nextStartTime s \<le> nextStartTime (step e s)) \<or>
         (\<exists>node t. sources (step e s) = sources s @ [node] \<and> src_start node = Some t \<and>
            nextStartTime s \<le> t \<and>
            nextStartTime (step e s) = t + duration (src_buffer node) \<and>
            0 \<le> duration (src_buffer node))"
proof (cases e)
  case (Message m)
  then have "\<not> msg_interrupted m" using assms by (simp add: interrupts_def)
  from handleMessage_no_interrupt[OF this, of s] show ?thesis
    unfolding Message by (auto simp: step_def)
next
  case (Tick dt)
  then show ?thesis by (simp add: step_def split: option.splits)
next
  case Suspend
  then show ?thesis by (simp add: step_def split: option.splits)
next
  case (Finished i)
  then show ?thesis by (simp add: step_def map_update sched_key_def list_update_same_conv)
next
  case (Ended i)
  then show ?thesis by (simp add: step_def)
next
  case (SetVolume v)
  then show ?thesis by (simp add: step_def setVolume_def split: option.splits)
next
  case (Connect initial)
  then show ?thesis by (simp add: step_def connect_graph_def)
next
  case MicrophoneGranted
  then show ?thesis by (simp add: step_def connect_session_def)
next
  case Open
  then show ?thesis by (simp add: step_def handleOpen_def Let_def)
next
  case (SessionError err)
  then show ?thesis using assms by (simp add: interrupts_def)
next
  case Disconnect
  then show ?thesis using assms by (simp add: interrupts_def)
qed

lemma run_append: "run (es @ fs) s = run fs (run es s)"
  by (induction es arbitrary: s) simp_all

lemma run_no_interrupt:
  assumes "list_all (\<lambda>e. \<not> interrupts e) es"
  shows "length (sources s) \<le> length (sources (run es s)) \<and>
         nextStartTime s \<le> nextStartTime (run es s) \<and>
         gapless (nextStartTime s) (drop (length (sources s)) (sources (run es s))) \<and>
         cursor_after (nextStartTime s) (drop (length (sources s)) (sources (run es s)))
           \<le> nextStartTime (run es s)"
  using assms
proof (induction es rule: rev_induct)
  case Nil
  show ?case by simp
next
  case (snoc e es)
  let ?r = "run es s"
  let ?k = "length (sources s)"
  let ?c = "nextStartTime s"
  from snoc.prems have ne: "\<not> interrupts e" and es: "list_all (\<lambda>e. \<not> interrupts e) es"
    by simp_all
  from snoc.IH[OF es] have
    ih: "?k \<le> length (sources ?r)" "?c \<le> nextStartTime ?r"
        "gapless ?c (drop ?k (sources ?r))"
        "cursor_after ?c (drop ?k (sources ?r)) \<le> nextStartTime ?r"
    by simp_all
  have r: "run (es @ [e]) s = step e ?r" by (simp add: run_append)
  from step_no_interrupt[OF ne, of ?r] show ?case
  proof
    assume a: "map sched_key (sources (step e ?r)) = map sched_key (sources ?r) \<and>
          nextStartTime ?r \<le> nextStartTime (step e ?r)"
    then have l: "length (sources (step e ?r)) = length (sources ?r)"
      by (metis length_map)
    from a have "map sched_key (drop ?k (sources (step e ?r))) = map sched_key (drop ?k (sources ?r))"
      by (simp add: drop_map[symmetric])
    then have "gapless ?c (drop ?k (sources (step e ?r))) = gapless ?c (drop ?k (sources ?r))"
      and "cursor_after ?c (drop ?k (sources (step e ?r))) = cursor_after ?c (drop ?k (sources ?r))"
      by (rule gapless_key_cong, rule cursor_after_key_cong)
    then show ?thesis unfolding r using ih a l by simp
  next
    assume "\<exists>node t. sources (step e ?r) = sources ?r @ [node] \<and> src_start node = Some t \<and>
            nextStartTime ?r \<le> t \<and>
            nextStartTime (step e ?r) = t + duration (src_buffer node) \<and>
            0 \<le> duration (src_buffer node)"
    then obtain node t where
      n: "sources (step e ?r) = sources ?r @ [node]" "src_start node = Some t"
         "nextStartTime ?r \<le> t" "nextStartTime (step e ?r) = t + duration (src_buffer node)"
         "0 \<le> duration (src_buffer node)"
      by blast
    have d: "drop ?k (sources (step e ?r)) = drop ?k (sources ?r) @ [node]"
      using n(1) ih(1) by simp
    show ?thesis unfolding r d
      using ih n by (simp add: gapless_append cursor_after_append)
  qed
qed

lemma try_stop_idem: "try_stop (try_stop node) = try_stop node"
  by (auto simp: try_stop_def source_stop_def split: option.splits)

lemma stop_sources_Cons:
  "stop_sources (i # rest) nodes = stop_sources rest (nodes[i := try_stop (nodes ! i)])"
  by (auto simp: try_stop_def list_update_beyond split: sum.splits)

lemma length_stop_sources: "length (stop_sources ids nodes) = length nodes"
proof (induction ids arbitrary: nodes)
  case Nil
  show ?case by simp
next
  case (Cons i ids)
  show ?case unfolding stop_sources_Cons by (simp add: Cons.IH)
qed

lemma stop_sources_nth:
  "k < length nodes \<Longrightarrow>
   stop_sources ids nodes ! k = (if k \<in> set ids then try_stop (nodes ! k) else nodes ! k)"
proof (induction ids arbitrary: nodes)
  case Nil
  show ?case by simp
next
  case (Cons i ids)
  have "stop_sources (i # ids) nodes ! k = stop_sources ids (nodes[i := try_stop (nodes ! i)]) ! k"
    by (simp only: stop_sources_Cons)
  also have "\<dots> = (if k \<in> set ids then try_stop (nodes[i := try_stop (nodes ! i)] ! k)
                    else nodes[i := try_stop (nodes ! i)] ! k)"
    using Cons.prems by (intro Cons.IH) simp
  also have "\<dots> = (if k \<in> set (i # ids) then try_stop (nodes ! k) else nodes ! k)"
    using Cons.prems by (cases "k = i") (simp_all add: try_stop_idem)
  finally show ?case .
qed

lemma step_outputNode:
  "(\<forall>v. e \<noteq> SetVolume v) \<Longrightarrow> (\<forall>initial. e \<noteq> Connect initial) \<Longrightarrow>
   outputNode (step e s) = outputNode s"
proof (cases e)
  case (Message m)
  have p: "outputNode (play_audio ctx b64 s) = outputNode s" for ctx b64
    using play_audio_cases[of ctx b64 s] by auto
  show ?thesis unfolding Message
    by (auto simp: step_def handleMessage_def stopAllAudio_def Let_def p split: option.splits)
qed (auto simp: step_def disconnect_def session_error_def stopAllAudio_def connect_session_def
       handleOpen_def Let_def split: option.splits)

lemma run_outputNode:
  "list_all (\<lambda>e. (\<forall>v. e \<noteq> SetVolume v) \<and> (\<forall>initial. e \<noteq> Connect initial)) es \<Longrightarrow>
   outputNode (run es s) = outputNode s"
  by (induction es arbitrary: s) (simp_all add: step_outputNode)

lemma play_audio_ok:
  assumes "base64ToBytes b64 = Inr bytes" "decodeAudioData bytes 24000 1 = Inr buf"
    and "0 \<le> max (nextStartTime s) (currentTime ctx)"
  shows "play_audio ctx b64 s =
            s\<lparr>outputAudioContext := Some (ctx\<lparr>ctx_state := Running\<rparr>),
              nextStartTime := max (nextStartTime s) (currentTime ctx) + duration buf,
              sources := sources s @
                [\<lparr>src_buffer = buf, src_start = Some (max (nextStartTime s) (currentTime ctx)),
                  src_stopped = False, src_ended = False\<rparr>],
              activeSources := activeSources s @ [length (sources s)]\<rparr>"
proof -
  have c: "(if ctx_state ctx = Suspended then ctx\<lparr>ctx_state := Running\<rparr> else ctx) =
           ctx\<lparr>ctx_state := Running\<rparr>"
    by (cases "ctx_state ctx") simp_all
  show ?thesis
    unfolding play_audio_def Let_def c using assms
    by (auto simp: source_start_def)
qed

lemma play_audio_decode_error:
  assumes "base64ToBytes b64 = Inr bytes" "decodeAudioData bytes 24000 1 = Inl e"
  shows "play_audio ctx b64 s =
            s\<lparr>outputAudioContext := Some (ctx\<lparr>ctx_state := Running\<rparr>),
              nextStartTime := max (nextStartTime s) (currentTime ctx),
              console := console s @ [e]\<rparr>"
proof -
  have c: "(if ctx_state ctx = Suspended then ctx\<lparr>ctx_state := Running\<rparr> else ctx) =
           ctx\<lparr>ctx_state := Running\<rparr>"
    by (cases "ctx_state ctx") simp_all
  show ?thesis
    unfolding play_audio_def Let_def c using assms
    by (simp add: catch_decoding_def)
qed

lemma play_audio_base64_error:
  assumes "base64ToBytes b64 = Inl e"
  shows "play_audio ctx b64 s =
            s\<lparr>outputAudioContext := Some (ctx\<lparr>ctx_state := Running\<rparr>),
              nextStartTime := max (nextStartTime s) (currentTime ctx),
              console := console s @ [e]\<rparr>"
proof -
  have c: "(if ctx_state ctx = Suspended then ctx\<lparr>ctx_state := Running\<rparr> else ctx) =
           ctx\<lparr>ctx_state := Running\<rparr>"
    by (cases "ctx_state ctx") simp_all
  show ?thesis
    unfolding play_audio_def Let_def c using assms
    by (simp add: catch_decoding_def)
qed

lemma handleMessage_play:
  assumes "outputAudioContext s = Some ctx" "outputNode s = Some g"
    and "msg_audio m = Some b64" "b64 \<noteq> []" "\<not> msg_interrupted m"
  shows "handleMessage m s = play_audio ctx b64 s"
  using assms by (simp add: handleMessage_def)

lemma silent_frame_bytes: "base64ToBytes (js_literal ''AAA='') = Inr [0, 0]"
  by (simp add: base64ToBytes_def atob_def js_literal_def is_ascii_whitespace_def
        strip_padding_def sextet_of_def base64ToBytes_loop.simps array_store_def)

lemma silent_frame_buffer: "decodeAudioData [0, 0] 24000 1 =
     Inr \<lparr>buf_sampleRate = 24000, buf_length = 1, buf_channels = [[Num 0]]\<rparr>"
  by (simp add: decodeAudioData_def Int16Array_of_buffer_def createBuffer_def Let_def
        decode_channels.simps decode_frames.simps array_store_def int16_sample_def)

lemma silent_frame_first:
  "handleMessage silent_frame connected_manager =
   connected_manager
     \<lparr>outputAudioContext := Some \<lparr>ctx_state = Running, currentTime = 0\<rparr>,
      nextStartTime := 1 / 24000,
      sources := [\<lparr>src_buffer = \<lparr>buf_sampleRate = 24000, buf_length = 1, buf_channels = [[Num 0]]\<rparr>,
                   src_start = Some 0, src_stopped = False, src_ended = False\<rparr>],
      activeSources := [0]\<rparr>"
proof -
  have ne: "js_literal ''AAA='' \<noteq> []" by (simp add: js_literal_def)
  have "handleMessage silent_frame connected_manager =
        play_audio \<lparr>ctx_state = Suspended, currentTime = 0\<rparr> (js_literal ''AAA='') connected_manager"
    by (rule handleMessage_play[where g = 1]) (simp_all add: connected_manager_def silent_frame_def ne)
  then show ?thesis
    by (simp add: play_audio_ok[OF silent_frame_bytes silent_frame_buffer]
          connected_manager_def new_LiveManager_def duration_def)
qed

lemma silent_frame_run:
  "nextStartTime (run [Message silent_frame, Tick 1, Message silent_frame] connected_manager) =
     1 + 1 / 24000 \<and>
   map src_start (sources (run [Message silent_frame, Tick 1, Message silent_frame] connected_manager)) =
     [Some 0, Some 1]"
proof -
  let ?buf = "\<lparr>buf_sampleRate = 24000, buf_length = 1, buf_channels = [[Num 0]]\<rparr>"
  let ?n0 = "\<lparr>src_buffer = ?buf, src_start = Some 0, src_stopped = False, src_ended = False\<rparr>"
  let ?n1 = "\<lparr>src_buffer = ?buf, src_start = Some 1, src_stopped = False, src_ended = False\<rparr>"
  let ?s1 = "connected_manager\<lparr>outputAudioContext := Some \<lparr>ctx_state = Running, currentTime = 0\<rparr>,
                nextStartTime := 1 / 24000, sources := [?n0], activeSources := [0]\<rparr>"
  let ?s2 = "?s1\<lparr>outputAudioContext := Some \<lparr>ctx_state = Running, currentTime = 1\<rparr>\<rparr>"
  let ?s3 = "?s2\<lparr>nextStartTime := 1 + 1 / 24000, sources := [?n0, ?n1], activeSources := [0, 1]\<rparr>"
  have ne: "js_literal ''AAA='' \<noteq> []" by (simp add: js_literal_def)
  have "handleMessage silent_frame connected_manager =
        play_audio \<lparr>ctx_state = Suspended, currentTime = 0\<rparr> (js_literal ''AAA='') connected_manager"
    by (rule handleMessage_play[where g = 1]) (simp_all add: connected_manager_def silent_frame_def ne)
  also have "\<dots> = ?s1"
    by (subst play_audio_ok[OF silent_frame_bytes silent_frame_buffer])
       (simp_all add: connected_manager_def new_LiveManager_def duration_def)
  finally have 1: "step (Message silent_frame) connected_manager = ?s1" by (simp add: step_def)
  have 2: "step (Tick 1) ?s1 = ?s2" by (simp add: step_def connected_manager_def)
  have "handleMessage silent_frame ?s2 =
        play_audio \<lparr>ctx_state = Running, currentTime = 1\<rparr> (js_literal ''AAA='') ?s2"
    by (rule handleMessage_play[where g = 1]) (simp_all add: connected_manager_def silent_frame_def ne)
  also have "\<dots> = ?s3"
    by (subst play_audio_ok[OF silent_frame_bytes silent_frame_buffer])
       (simp_all add: connected_manager_def new_LiveManager_def duration_def)
  finally have 3: "step (Message silent_frame) ?s2 = ?s3" by (simp add: step_def)
  have "run [Message silent_frame, Tick 1, Message silent_frame] connected_manager = ?s3"
    by (simp only: run.simps 1 2 3)
  then show ?thesis by simp
qed

text \<open>
  Claim C1. Over every sequence of events without an interrupt (messages that are not
  flagged as interrupted, clock ticks, suspensions, sources finishing, volume changes),
  the cursor \<open>nextStartTime\<close> does not decrease and the source nodes started during the
  sequence are gapless from the cursor at its beginning: each starts no earlier than the
  start of the one before plus the duration of the one before. A message that is not
  flagged as interrupted either starts no node and does not lower the cursor, or starts
  one node at \<open>max (nextStartTime, currentTime)\<close> as they are when the message is handled,
  adds it to the active sources and leaves the cursor at that start plus the duration
  of the buffer.
\<close>

theorem enqueue_gapless:
  "(list_all (\<lambda>e. \<not> interrupts e) es \<longrightarrow>
      nextStartTime s \<le> nextStartTime (run es s) \<and>
      length (sources s) \<le> length (sources (run es s)) \<and>
      gapless (nextStartTime s) (drop (length (sources s)) (sources (run es s)))) \<and>
   (\<not> msg_interrupted m \<longrightarrow>
      (sources (handleMessage m s) = sources s \<and>
       activeSources (handleMessage m s) = activeSources s \<and>
       nextStartTime s \<le> nextStartTime (handleMessage m s)) \<or>
      (\<exists>ctx buf. outputAudioContext s = Some ctx \<and>
         sources (handleMessage m s) = sources s @
           [\<lparr>src_buffer = buf, src_start = Some (max (nextStartTime s) (currentTime ctx)),
             src_stopped = False, src_ended = False\<rparr>] \<and>
         activeSources (handleMessage m s) = activeSources s @ [length (sources s)] \<and>
         nextStartTime (handleMessage m s) =
           max (nextStartTime s) (currentTime ctx) + duration buf \<and>
         0 < duration buf))"
  using run_no_interrupt[of es s] handleMessage_no_interrupt[of m s] by blast

theorem enqueue_gapless_witness:
  "list_all (\<lambda>e. \<not> interrupts e) [Message silent_frame, Tick 1, Message silent_frame] \<and>
   nextStartTime connected_manager \<le>
     nextStartTime (run [Message silent_frame, Tick 1, Message silent_frame] connected_manager) \<and>
   gapless (nextStartTime connected_manager)
     (drop (length (sources connected_manager))
        (sources (run [Message silent_frame, Tick 1, Message silent_frame] connected_manager))) \<and>
   nextStartTime (run [Message silent_frame, Tick 1, Message silent_frame] connected_manager) =
     1 + 1 / 24000 \<and>
   map src_start (sources (run [Message silent_frame, Tick 1, Message silent_frame] connected_manager)) =
     [Some 0, Some 1] \<and>
   \<not> msg_interrupted silent_frame \<and>
   outputAudioContext connected_manager = Some \<lparr>ctx_state = Suspended, currentTime = 0\<rparr> \<and>
   nextStartTime connected_manager = 0 \<and>
   map src_start (sources (handleMessage silent_frame connected_manager)) = [Some (max 0 0)] \<and>
   activeSources (handleMessage silent_frame connected_manager) = [0] \<and>
   nextStartTime (handleMessage silent_frame connected_manager) = max 0 0 + 1 / 24000"
proof -
  have h: "list_all (\<lambda>e. \<not> interrupts e) [Message silent_frame, Tick 1, Message silent_frame]"
    by (simp add: interrupts_def silent_frame_def)
  have n: "\<not> msg_interrupted silent_frame" by (simp add: silent_frame_def)
  have o: "outputAudioContext connected_manager = Some \<lparr>ctx_state = Suspended, currentTime = 0\<rparr>"
          "nextStartTime connected_manager = 0"
    by (simp_all add: connected_manager_def new_LiveManager_def)
  from enqueue_gapless[of "[Message silent_frame, Tick 1, Message silent_frame]"
         connected_manager silent_frame] h
  have 1: "nextStartTime connected_manager \<le>
     nextStartTime (run [Message silent_frame, Tick 1, Message silent_frame] connected_manager) \<and>
   gapless (nextStartTime connected_manager)
     (drop (length (sources connected_manager))
        (sources (run [Message silent_frame, Tick 1, Message silent_frame] connected_manager)))"
    by blast
  have 2: "map src_start (sources (handleMessage silent_frame connected_manager)) = [Some (max 0 0)]"
          "activeSources (handleMessage silent_frame connected_manager) = [0]"
          "nextStartTime (handleMessage silent_frame connected_manager) = max 0 0 + 1 / 24000"
    by (simp_all add: silent_frame_first)
  show ?thesis using h n o 1 2 silent_frame_run by blast
qed

text \<open>
  Claim C2. After \<^verbatim>\<open>stopAllAudio\<close> the set of active sources is empty and the cursor
  \<open>nextStartTime\<close> is the clock of the output context as it is at the call, or 0 when
  there is no output context. Stopping a source that has finished is not an error and
  leaves the source as it is; an active source that is started and has not finished is
  stopped; a source that is not active is not touched. A message flagged as interrupted,
  handled with an output context and an output node, leaves no active source and the
  cursor at the clock.
\<close>

theorem stopAllAudio_clears:
  "activeSources (stopAllAudio s) = [] \<and>
   nextStartTime (stopAllAudio s) =
     (case outputAudioContext s of Some ctx \<Rightarrow> currentTime ctx | None \<Rightarrow> 0) \<and>
   length (sources (stopAllAudio s)) = length (sources s) \<and>
   (\<forall>k<length (sources s).
      (src_ended (sources s ! k) \<longrightarrow> sources (stopAllAudio s) ! k = sources s ! k) \<and>
      (src_ended (sources s ! k) \<and> src_start (sources s ! k) \<noteq> None \<longrightarrow>
         source_stop (sources s ! k) = Inr (sources s ! k)) \<and>
      (k \<in> set (activeSources s) \<and> src_start (sources s ! k) \<noteq> None \<and>
       \<not> src_ended (sources s ! k) \<longrightarrow>
         sources (stopAllAudio s) ! k = (sources s ! k)\<lparr>src_stopped := True\<rparr>) \<and>
      (k \<notin> set (activeSources s) \<longrightarrow> sources (stopAllAudio s) ! k = sources s ! k)) \<and>
   (msg_interrupted m \<and> outputAudioContext s = Some ctx \<and> outputNode s = Some gain \<longrightarrow>
      activeSources (handleMessage m s) = [] \<and>
      nextStartTime (handleMessage m s) = currentTime ctx)"
proof -
  have a: "activeSources (stopAllAudio s) = []" by (simp add: stopAllAudio_def)
  have b: "nextStartTime (stopAllAudio s) =
     (case outputAudioContext s of Some ctx \<Rightarrow> currentTime ctx | None \<Rightarrow> 0)"
    by (simp add: stopAllAudio_def)
  have c: "length (sources (stopAllAudio s)) = length (sources s)"
    by (simp add: stopAllAudio_def length_stop_sources)
  have d: "(src_ended (sources s ! k) \<longrightarrow> sources (stopAllAudio s) ! k = sources s ! k) \<and>
      (src_ended (sources s ! k) \<and> src_start (sources s ! k) \<noteq> None \<longrightarrow>
         source_stop (sources s ! k) = Inr (sources s ! k)) \<and>
      (k \<in> set (activeSources s) \<and> src_start (sources s ! k) \<noteq> None \<and>
       \<not> src_ended (sources s ! k) \<longrightarrow>
         sources (stopAllAudio s) ! k = (sources s ! k)\<lparr>src_stopped := True\<rparr>) \<and>
      (k \<notin> set (activeSources s) \<longrightarrow> sources (stopAllAudio s) ! k = sources s ! k)"
    if "k < length (sources s)" for k
    using that
    by (auto simp: stopAllAudio_def stop_sources_nth try_stop_def source_stop_def
             split: option.splits)
  have e: "activeSources (handleMessage m s) = [] \<and>
      nextStartTime (handleMessage m s) = currentTime ctx"
    if "msg_interrupted m" "outputAudioContext s = Some ctx" "outputNode s = Some gain"
  proof -
    have p: "outputAudioContext (play_audio ctx b64 s) = Some (ctx\<lparr>ctx_state := Running\<rparr>)" for b64
      using play_audio_cases[of ctx b64 s] by auto
    show ?thesis
      using that p
      by (auto simp: handleMessage_def stopAllAudio_def Let_def split: option.splits)
  qed
  show ?thesis using a b c d e by blast
qed

theorem stopAllAudio_clears_witness:
  "activeSources (stopAllAudio playing_manager) = [] \<and>
   nextStartTime (stopAllAudio playing_manager) = 5 \<and>
   (0::nat) < length (sources playing_manager) \<and>
   src_ended (sources playing_manager ! 0) \<and>
   src_start (sources playing_manager ! 0) \<noteq> None \<and>
   source_stop (sources playing_manager ! 0) = Inr (sources playing_manager ! 0) \<and>
   sources (stopAllAudio playing_manager) ! 0 = sources playing_manager ! 0 \<and>
   (1::nat) < length (sources playing_manager) \<and>
   1 \<in> set (activeSources playing_manager) \<and>
   \<not> src_ended (sources playing_manager ! 1) \<and>
   src_stopped (sources (stopAllAudio playing_manager) ! 1) \<and>
   msg_interrupted \<lparr>msg_audio = None, msg_interrupted = True\<rparr> \<and>
   activeSources (handleMessage \<lparr>msg_audio = None, msg_interrupted = True\<rparr> playing_manager) = [] \<and>
   nextStartTime (handleMessage \<lparr>msg_audio = None, msg_interrupted = True\<rparr> playing_manager) = 5"
proof -
  let ?m = "\<lparr>msg_audio = None, msg_interrupted = True\<rparr>"
  have o: "outputAudioContext playing_manager = Some \<lparr>ctx_state = Running, currentTime = 5\<rparr>"
          "outputNode playing_manager = Some 1"
    by (simp_all add: playing_manager_def connected_manager_def new_LiveManager_def)
  have h: "(0::nat) < length (sources playing_manager)" "src_ended (sources playing_manager ! 0)"
          "src_start (sources playing_manager ! 0) \<noteq> None"
          "(1::nat) < length (sources playing_manager)" "1 \<in> set (activeSources playing_manager)"
          "\<not> src_ended (sources playing_manager ! 1)"
          "src_start (sources playing_manager ! 1) \<noteq> None"
          "msg_interrupted ?m"
    by (simp_all add: playing_manager_def)
  note t = stopAllAudio_clears[of playing_manager ?m "\<lparr>ctx_state = Running, currentTime = 5\<rparr>" 1]
  from t have 1: "activeSources (stopAllAudio playing_manager) = []" by blast
  from t o(1) have 2: "nextStartTime (stopAllAudio playing_manager) = 5" by simp
  from t h(1,2,3) have 3: "source_stop (sources playing_manager ! 0) = Inr (sources playing_manager ! 0)"
    and 4: "sources (stopAllAudio playing_manager) ! 0 = sources playing_manager ! 0"
    by blast+
  from t h(4,5,6,7) have "sources (stopAllAudio playing_manager) ! 1 =
      (sources playing_manager ! 1)\<lparr>src_stopped := True\<rparr>"
    by blast
  then have 5: "src_stopped (sources (stopAllAudio playing_manager) ! 1)" by simp
  from t h(8) o have 6: "activeSources (handleMessage ?m playing_manager) = []"
    and 7: "nextStartTime (handleMessage ?m playing_manager) = 5"
    by simp_all
  show ?thesis using 1 2 3 4 5 6 7 h by blast
qed

text \<open>
  With an output node and an output context, \<^verbatim>\<open>setVolume\<close> with a volume in \<open>[0, 100]\<close>
  sets the gain of the one output node to \<open>val / 100\<close>, a value in \<open>[0, 1]\<close>, and changes
  nothing else; the gain keeps that value over every sequence of events that has no
  other \<^verbatim>\<open>setVolume\<close> and no \<^verbatim>\<open>connect\<close>, which installs a new gain node.
\<close>

lemma setVolume_connected:
  assumes "0 \<le> val" and "val \<le> 100"
    and "outputNode s \<noteq> None" and "outputAudioContext s \<noteq> None"
  shows "setVolume val s = s\<lparr>outputNode := Some (val / 100)\<rparr>"
    and "0 \<le> val / 100 \<and> val / 100 \<le> 1"
    and "list_all (\<lambda>e. (\<forall>v. e \<noteq> SetVolume v) \<and> (\<forall>initial. e \<noteq> Connect initial)) es \<Longrightarrow>
           outputNode (run es (setVolume val s)) = Some (val / 100)"
proof -
  show a: "setVolume val s = s\<lparr>outputNode := Some (val / 100)\<rparr>"
    using assms(3,4) by (auto simp: setVolume_def)
  show "0 \<le> val / 100 \<and> val / 100 \<le> 1" using assms(1,2) by simp
  show "outputNode (run es (setVolume val s)) = Some (val / 100)"
    if "list_all (\<lambda>e. (\<forall>v. e \<noteq> SetVolume v) \<and> (\<forall>initial. e \<noteq> Connect initial)) es"
    using that a by (simp add: run_outputNode)
qed

lemma connected_manager_run:
  "run [Connect Suspended, MicrophoneGranted] new_LiveManager = connected_manager"
  by (simp add: step_def connect_graph_def connect_session_def connected_manager_def
        new_LiveManager_def)

text \<open>
  Claim C9. For every volume \<open>val\<close> in \<open>[0, 100]\<close>, \<^verbatim>\<open>setVolume\<close> is to set the gain of
  the one gain node between the sources and the device to \<open>val / 100\<close>, for the units
  already scheduled and for those to come. The program does not do so at its own start:
  the application calls \<^verbatim>\<open>setVolume(75)\<close> on the new manager, where there is no output
  node yet and the call changes nothing; \<^verbatim>\<open>connect\<close> then creates the gain node at its
  default gain 1, and nothing applies the volume again. The first unit, started when the
  first audio message arrives on the open session, plays through a gain of 1 and not of
  \<open>75 / 100\<close>.
\<close>

theorem setVolume_before_connect_lost:
  "(0::real) \<le> 75 \<and> (75::real) \<le> 100 \<and>
   setVolume 75 new_LiveManager = new_LiveManager \<and>
   run [SetVolume 75, Connect Suspended, MicrophoneGranted] new_LiveManager = connected_manager \<and>
   outputNode
     (run [SetVolume 75, Connect Suspended, MicrophoneGranted, Open, Message silent_frame]
        new_LiveManager) = Some 1 \<and>
   map src_start
     (sources (run [SetVolume 75, Connect Suspended, MicrophoneGranted, Open, Message silent_frame]
        new_LiveManager)) = [Some 0] \<and>
   (75 / 100 :: real) \<noteq> 1"
proof -
  let ?ctx = "\<lparr>ctx_state = Suspended, currentTime = 0\<rparr>"
  let ?opened = "handleOpen connected_manager"
  have 1: "setVolume 75 new_LiveManager = new_LiveManager"
    by (simp add: setVolume_def new_LiveManager_def)
  have 2: "run [SetVolume 75, Connect Suspended, MicrophoneGranted] new_LiveManager =
           connected_manager"
    using connected_manager_run by (simp add: step_def 1)
  have e: "[SetVolume 75, Connect Suspended, MicrophoneGranted, Open, Message silent_frame] =
           [SetVolume 75, Connect Suspended, MicrophoneGranted] @ [Open, Message silent_frame]"
    by simp
  have 3: "run [SetVolume 75, Connect Suspended, MicrophoneGranted, Open, Message silent_frame]
          new_LiveManager = handleMessage silent_frame ?opened"
    by (subst e, subst run_append, subst 2) (simp add: step_def)
  have o: "outputAudioContext ?opened = Some ?ctx" "outputNode ?opened = Some 1"
          "nextStartTime ?opened = 0" "sources ?opened = []"
    by (simp_all add: handleOpen_def Let_def connected_manager_def new_LiveManager_def)
  have m: "msg_audio silent_frame = Some (js_literal ''AAA='')" "\<not> msg_interrupted silent_frame"
          "js_literal ''AAA='' \<noteq> []"
    by (simp_all add: silent_frame_def js_literal_def)
  have "handleMessage silent_frame ?opened = play_audio ?ctx (js_literal ''AAA='') ?opened"
    by (rule handleMessage_play[OF o(1) o(2) m(1) m(3) m(2)])
  also have "\<dots> =
      ?opened\<lparr>outputAudioContext := Some (?ctx\<lparr>ctx_state := Running\<rparr>),
        nextStartTime := max (nextStartTime ?opened) (currentTime ?ctx) +
          duration \<lparr>buf_sampleRate = 24000, buf_length = 1, buf_channels = [[Num 0]]\<rparr>,
        sources := sources ?opened @
          [\<lparr>src_buffer = \<lparr>buf_sampleRate = 24000, buf_length = 1, buf_channels = [[Num 0]]\<rparr>,
            src_start = Some (max (nextStartTime ?opened) (currentTime ?ctx)),
            src_stopped = False, src_ended = False\<rparr>],
        activeSources := activeSources ?opened @ [length (sources ?opened)]\<rparr>"
    by (rule play_audio_ok[OF silent_frame_bytes silent_frame_buffer]) (simp add: o(3))
  finally have 4: "outputNode (handleMessage silent_frame ?opened) = Some 1"
    and 5: "map src_start (sources (handleMessage silent_frame ?opened)) = [Some 0]"
    by (simp_all add: o)
  show ?thesis using 1 2 3 4 5 by simp
qed

section \<open>Malformed payloads\<close>

text \<open>
  Claim C8, as stated, fails in both directions: six bytes are not a multiple of
  \<open>2 * 2\<close>, and \<^verbatim>\<open>decodeAudioData\<close> with two channels returns a buffer of one frame (the
  third sample is dropped); no bytes are a multiple of \<open>2 * 1\<close>, and \<^verbatim>\<open>decodeAudioData\<close>
  with one channel raises an error, since a buffer of no frames cannot be created.
\<close>

theorem decodeAudioData_multiple_counterexample:
  "length [0, 0, 0, 0, 0, 0 :: 8 word] mod (2 * 2) \<noteq> 0 \<and>
   decodeAudioData [0, 0, 0, 0, 0, 0] 24000 2 =
     Inr \<lparr>buf_sampleRate = 24000, buf_length = 1, buf_channels = [[Num 0], [Num 0]]\<rparr> \<and>
   length ([] :: 8 word list) mod (2 * 1) = 0 \<and>
   decodeAudioData [] 24000 1 = Inl NotSupportedError"
proof -
  have "replicate 2 [Num 0] = [[Num 0], [Num 0]]" by (simp add: numeral_2_eq_2)
  then have "decodeAudioData [0, 0, 0, 0, 0, 0] 24000 2 =
     Inr \<lparr>buf_sampleRate = 24000, buf_length = 1, buf_channels = [[Num 0], [Num 0]]\<rparr>"
    by (simp add: decodeAudioData_def Int16Array_of_buffer_def createBuffer_def Let_def
        decode_channels.simps decode_frames.simps array_store_def int16_sample_def)
  moreover have "decodeAudioData [] 24000 1 = Inl NotSupportedError"
    by (simp add: decodeAudioData_def Int16Array_of_buffer_def createBuffer_def)
  ultimately show ?thesis by simp
qed

text \<open>
  Claim C8, amended. For 1 to 32 channels and a sample rate from 8000 to 96000,
  \<^verbatim>\<open>decodeAudioData\<close> raises an error if and only if the byte length is odd or holds no
  whole frame (\<open>byteLength div 2 div channelCount = 0\<close>). When it returns, the buffer has
  \<open>byteLength div 2 div channelCount\<close> frames in each of the channels, and sample \<open>i\<close> of
  channel \<open>c\<close> is the little-endian signed 16-bit value at position \<open>i * channelCount + c\<close>
  divided by 32768. When \<^verbatim>\<open>base64ToBytes\<close> or the decoding of the payload of a message
  raises an error, \<^verbatim>\<open>handleMessage\<close> writes the error to the console and drops the
  payload: the context is resumed, the cursor is raised to the clock, and nothing else
  changes; no source is started, no callback is called and the session is kept.
\<close>

theorem decodeAudioData_failure:
  assumes "0 < numChannels" and "numChannels \<le> 32" and "8000 \<le> sampleRate" and "sampleRate \<le> 96000"
  shows
    "(isl (decodeAudioData data sampleRate numChannels) \<longleftrightarrow>
        odd (length data) \<or> length data div 2 div numChannels = 0) \<and>
     (\<forall>b. decodeAudioData data sampleRate numChannels = Inr b \<longrightarrow>
        buf_length b = length data div 2 div numChannels \<and>
        length (buf_channels b) = numChannels \<and>
        (\<forall>c<numChannels.
           length (buf_channels b ! c) = buf_length b \<and>
           (\<forall>i<buf_length b.
              buf_channels b ! c ! i =
                Num (real_of_int (sint (word_of_nat
                       (unat (data ! (2 * (i * numChannels + c))) +
                        256 * unat (data ! (2 * (i * numChannels + c) + 1))) :: 16 word)) / 32768)))) \<and>
     (outputAudioContext s = Some ctx \<and> outputNode s = Some gain \<and> base64Audio \<noteq> [] \<and>
      (base64ToBytes base64Audio = Inl e \<or>
       base64ToBytes base64Audio = Inr payload \<and> decodeAudioData payload 24000 1 = Inl e) \<longrightarrow>
        handleMessage \<lparr>msg_audio = Some base64Audio, msg_interrupted = False\<rparr> s =
          s\<lparr>outputAudioContext := Some (ctx\<lparr>ctx_state := Running\<rparr>),
            nextStartTime := max (nextStartTime s) (currentTime ctx),
            console := console s @ [e]\<rparr> \<and>
        sources (handleMessage \<lparr>msg_audio = Some base64Audio, msg_interrupted = False\<rparr> s) =
          sources s \<and>
        activeSources (handleMessage \<lparr>msg_audio = Some base64Audio, msg_interrupted = False\<rparr> s) =
          activeSources s \<and>
        sessionPromise (handleMessage \<lparr>msg_audio = Some base64Audio, msg_interrupted = False\<rparr> s) =
          sessionPromise s \<and>
        notifications (handleMessage \<lparr>msg_audio = Some base64Audio, msg_interrupted = False\<rparr> s) =
          notifications s)"
proof -
  let ?F = "length data div 2 div numChannels"
  have a: "isl (decodeAudioData data sampleRate numChannels) \<longleftrightarrow> odd (length data) \<or> ?F = 0"
    using assms by (rule decodeAudioData_fails_iff)
  have b: "buf_length b = ?F \<and> length (buf_channels b) = numChannels \<and>
        (\<forall>c<numChannels.
           length (buf_channels b ! c) = buf_length b \<and>
           (\<forall>i<buf_length b.
              buf_channels b ! c ! i =
                Num (real_of_int (sint (word_of_nat
                       (unat (data ! (2 * (i * numChannels + c))) +
                        256 * unat (data ! (2 * (i * numChannels + c) + 1))) :: 16 word)) / 32768)))"
    if r: "decodeAudioData data sampleRate numChannels = Inr b" for b
  proof -
    from decodeAudioData_Inr(4,5,6)[OF r] have ev: "even (length data)" and p: "0 < ?F" by simp_all
    from decodeAudioData_ok[OF assms ev p] r
    have l: "buf_length b = ?F" and n: "length (buf_channels b) = numChannels"
      and ch: "\<forall>c<numChannels. buf_channels b ! c =
              map (\<lambda>i. Num (real_of_int (sint (int16_of_bytes data ! (i * numChannels + c))) / 32768))
                [0..<?F]"
      by auto
    have "length (buf_channels b ! c) = buf_length b \<and>
           (\<forall>i<buf_length b.
              buf_channels b ! c ! i =
                Num (real_of_int (sint (word_of_nat
                       (unat (data ! (2 * (i * numChannels + c))) +
                        256 * unat (data ! (2 * (i * numChannels + c) + 1))) :: 16 word)) / 32768))"
      if c: "c < numChannels" for c
    proof (intro conjI allI impI)
      show "length (buf_channels b ! c) = buf_length b" using ch c l by simp
      fix i assume "i < buf_length b"
      then have i: "i < ?F" using l by simp
      then have "i + 1 \<le> ?F" by simp
      then have "(i + 1) * numChannels \<le> ?F * numChannels" by (rule mult_le_mono1)
      also have "\<dots> \<le> length data div 2" by simp
      finally have k: "i * numChannels + c < length data div 2" using c by simp
      have "buf_channels b ! c ! i =
            Num (real_of_int (sint (int16_of_bytes data ! (i * numChannels + c))) / 32768)"
        using ch c i by simp
      then show "buf_channels b ! c ! i =
                Num (real_of_int (sint (word_of_nat
                       (unat (data ! (2 * (i * numChannels + c))) +
                        256 * unat (data ! (2 * (i * numChannels + c) + 1))) :: 16 word)) / 32768)"
        by (simp only: int16_of_bytes_nth[OF k])
    qed
    then show ?thesis using l n by blast
  qed
  have c: "handleMessage \<lparr>msg_audio = Some base64Audio, msg_interrupted = False\<rparr> s =
          s\<lparr>outputAudioContext := Some (ctx\<lparr>ctx_state := Running\<rparr>),
            nextStartTime := max (nextStartTime s) (currentTime ctx),
            console := console s @ [e]\<rparr>"
    if "outputAudioContext s = Some ctx" "outputNode s = Some gain" "base64Audio \<noteq> []"
       "base64ToBytes base64Audio = Inl e \<or>
        base64ToBytes base64Audio = Inr payload \<and> decodeAudioData payload 24000 1 = Inl e"
  proof -
    have "handleMessage \<lparr>msg_audio = Some base64Audio, msg_interrupted = False\<rparr> s =
          play_audio ctx base64Audio s"
      using that(1,2,3) by (intro handleMessage_play) simp_all
    then show ?thesis
      using that(4) play_audio_base64_error[of base64Audio e ctx s]
        play_audio_decode_error[of base64Audio payload e ctx s]
      by auto
  qed
  have d: "sources (handleMessage \<lparr>msg_audio = Some base64Audio, msg_interrupted = False\<rparr> s) =
          sources s \<and>
        activeSources (handleMessage \<lparr>msg_audio = Some base64Audio, msg_interrupted = False\<rparr> s) =
          activeSources s \<and>
        sessionPromise (handleMessage \<lparr>msg_audio = Some base64Audio, msg_interrupted = False\<rparr> s) =
          sessionPromise s \<and>
        notifications (handleMessage \<lparr>msg_audio = Some base64Audio, msg_interrupted = False\<rparr> s) =
          notifications s"
    if "outputAudioContext s = Some ctx" "outputNode s = Some gain" "base64Audio \<noteq> []"
       "base64ToBytes base64Audio = Inl e \<or>
        base64ToBytes base64Audio = Inr payload \<and> decodeAudioData payload 24000 1 = Inl e"
    by (simp add: c[OF that])
  show ?thesis using a b c d by blast
qed

theorem decodeAudioData_failure_witness:
  "(0::nat) < 2 \<and> (2::nat) \<le> 32 \<and> (8000::real) \<le> 24000 \<and> (24000::real) \<le> 96000 \<and>
   decodeAudioData [1, 0, 255, 255] 24000 2 =
     Inr \<lparr>buf_sampleRate = 24000, buf_length = 1,
          buf_channels = [[Num (1 / 32768)], [Num (- 1 / 32768)]]\<rparr> \<and>
   \<not> isl (decodeAudioData [1, 0, 255, 255] 24000 2) \<and>
   isl (decodeAudioData [0, 0, 0] 24000 1) \<and>
   isl (decodeAudioData [] 24000 1) \<and>
   outputAudioContext connected_manager = Some \<lparr>ctx_state = Suspended, currentTime = 0\<rparr> \<and>
   outputNode connected_manager = Some 1 \<and>
   base64ToBytes (js_literal ''AAAA'') = Inr [0, 0, 0] \<and>
   decodeAudioData [0, 0, 0] 24000 1 = Inl RangeError \<and>
   handleMessage \<lparr>msg_audio = Some (js_literal ''AAAA''), msg_interrupted = False\<rparr> connected_manager =
     connected_manager\<lparr>outputAudioContext := Some \<lparr>ctx_state = Running, currentTime = 0\<rparr>,
                       nextStartTime := 0, console := [RangeError]\<rparr> \<and>
   sessionPromise (handleMessage \<lparr>msg_audio = Some (js_literal ''AAAA''), msg_interrupted = False\<rparr>
     connected_manager) = sessionPromise connected_manager"
proof -
  have r: "(0::nat) < 2" "(2::nat) \<le> 32" "(0::nat) < 1" "(1::nat) \<le> 32"
          "(8000::real) \<le> 24000" "(24000::real) \<le> 96000"
    by simp_all
  have "replicate 2 [Num 0] = [[Num 0], [Num 0]]" by (simp add: numeral_2_eq_2)
  then have d: "decodeAudioData [1, 0, 255, 255] 24000 2 =
     Inr \<lparr>buf_sampleRate = 24000, buf_length = 1,
          buf_channels = [[Num (1 / 32768)], [Num (- 1 / 32768)]]\<rparr>"
    by (simp add: decodeAudioData_def Int16Array_of_buffer_def createBuffer_def Let_def
        decode_channels.simps decode_frames.simps array_store_def int16_sample_def)
  have b: "base64ToBytes (js_literal ''AAAA'') = Inr [0, 0, 0]"
    by (simp add: base64ToBytes_def atob_def js_literal_def is_ascii_whitespace_def
        strip_padding_def sextet_of_def base64ToBytes_loop.simps array_store_def)
  have e: "decodeAudioData [0, 0, 0] 24000 1 = Inl RangeError"
    by (simp add: decodeAudioData_def Int16Array_of_buffer_def)
  have o: "outputAudioContext connected_manager = Some \<lparr>ctx_state = Suspended, currentTime = 0\<rparr>"
          "outputNode connected_manager = Some 1"
    by (simp_all add: connected_manager_def new_LiveManager_def)
  have ne: "js_literal ''AAAA'' \<noteq> []" by (simp add: js_literal_def)
  note t2 = decodeAudioData_failure[OF r(1,2,5,6), where data = "[1, 0, 255, 255]"]
  note t1 = decodeAudioData_failure[OF r(3,4,5,6), where s = connected_manager
              and ctx = "\<lparr>ctx_state = Suspended, currentTime = 0\<rparr>" and gain = 1
              and base64Audio = "js_literal ''AAAA''" and payload = "[0, 0, 0]" and e = RangeError]
  from t2 have 1: "\<not> isl (decodeAudioData [1, 0, 255, 255] 24000 2)" by simp
  from t1[where data = "[0, 0, 0]"] have 2: "isl (decodeAudioData [0, 0, 0] 24000 1)" by simp
  from t1[where data = "[]"] have 3: "isl (decodeAudioData [] 24000 1)" by simp
  from t1[where data = "[]"] o ne b e
  have "handleMessage \<lparr>msg_audio = Some (js_literal ''AAAA''), msg_interrupted = False\<rparr> connected_manager =
     connected_manager\<lparr>outputAudioContext :=
         Some (\<lparr>ctx_state = Suspended, currentTime = 0\<rparr>\<lparr>ctx_state := Running\<rparr>),
       nextStartTime := max (nextStartTime connected_manager)
          (currentTime \<lparr>ctx_state = Suspended, currentTime = 0\<rparr>),
       console := console connected_manager @ [RangeError]\<rparr>"
    by blast
  then have 4: "handleMessage \<lparr>msg_audio = Some (js_literal ''AAAA''), msg_interrupted = False\<rparr> connected_manager =
     connected_manager\<lparr>outputAudioContext := Some \<lparr>ctx_state = Running, currentTime = 0\<rparr>,
                       nextStartTime := 0, console := [RangeError]\<rparr>"
    by (simp add: connected_manager_def new_LiveManager_def)
  from t1[where data = "[]"] o ne b e
  have 5: "sessionPromise (handleMessage \<lparr>msg_audio = Some (js_literal ''AAAA''), msg_interrupted = False\<rparr>
             connected_manager) = sessionPromise connected_manager"
    by blast
  show ?thesis using r d b e o 1 2 3 4 5 by blast
qed

end
